theory Spec2Isabelle
  imports Complex_Main "HOL-Library.Multiset"
begin

section \<open>Text files of keys\<close>

text \<open>
  A key file is a text file with one key per line. Its content is a \<^typ>\<open>string\<close>;
  characters are code points below 256. The functions below are what
  \<^verbatim>\<open>open(key_file, 'r')\<close>, \<^verbatim>\<open>f.readlines()\<close>, \<^verbatim>\<open>line.strip()\<close> and
  \<^verbatim>\<open>'\n'.join(keys)\<close> compute. Errors of the file system itself (a file that exists
  but cannot be read or written) are outside the model.
\<close>

definition LF :: char where
  "LF = CHR 0x0A"

definition CR :: char where
  "CR = CHR 0x0D"

text \<open>\<^verbatim>\<open>str.isspace\<close> on the code points below 256.\<close>

definition isspace :: "char \<Rightarrow> bool" where
  "isspace c \<longleftrightarrow> (of_char c :: nat) \<in> {9, 10, 11, 12, 13, 28, 29, 30, 31, 32, 133, 160}"

definition strip :: "string \<Rightarrow> string" where
  "strip s = rev (dropWhile isspace (rev (dropWhile isspace s)))"

text \<open>Reading in text mode translates \<^verbatim>\<open>\r\n\<close> and a lone \<^verbatim>\<open>\r\<close> to \<^verbatim>\<open>\n\<close>.\<close>

fun universal_newlines :: "string \<Rightarrow> string" where
  "universal_newlines [] = []"
| "universal_newlines [c] = (if c = CR then [LF] else [c])"
| "universal_newlines (c # d # cs) =
     (if c = CR then (if d = LF then LF # universal_newlines cs else LF # universal_newlines (d # cs))
      else c # universal_newlines (d # cs))"

text \<open>
  \<^verbatim>\<open>readlines\<close>: every line keeps its terminator; a last line without terminator is
  a line too; \<open>cur\<close> is the line read so far.
\<close>

fun lines_from :: "string \<Rightarrow> string \<Rightarrow> string list" where
  "lines_from cur [] = (if cur = [] then [] else [cur])"
| "lines_from cur (c # cs) =
     (if c = LF then (cur @ [c]) # lines_from [] cs else lines_from (cur @ [c]) cs)"

definition readlines :: "string \<Rightarrow> string list" where
  "readlines content = lines_from [] (universal_newlines content)"

text \<open>\<^verbatim>\<open>[line.strip() for line in f.readlines() if line.strip()]\<close>\<close>

definition read_keys :: "string \<Rightarrow> string list" where
  "read_keys content = map strip (filter (\<lambda>line. strip line \<noteq> []) (readlines content))"

fun join :: "string \<Rightarrow> string list \<Rightarrow> string" where
  "join sep [] = []"
| "join sep [x] = x"
| "join sep (x # y # ys) = x @ sep @ join sep (y # ys)"

text \<open>\<^verbatim>\<open>f.write('\n'.join(keys)); if keys: f.write('\n')\<close> on a file opened with \<^verbatim>\<open>'w'\<close>.\<close>

definition write_keys :: "string list \<Rightarrow> string" where
  "write_keys ks = join [LF] ks @ (if ks \<noteq> [] then [LF] else [])"

text \<open>
  A key as a line of the file holds it: not empty, no white space at either end, no
  line break inside.
\<close>

definition clean_key :: "string \<Rightarrow> bool" where
  "clean_key k \<longleftrightarrow>
     k \<noteq> [] \<and> \<not> isspace (hd k) \<and> \<not> isspace (last k) \<and> LF \<notin> set k \<and> CR \<notin> set k"

text \<open>A file that a later \<^verbatim>\<open>open(key_file, 'a')\<close> can extend by whole lines.\<close>

definition newline_terminated :: "string \<Rightarrow> bool" where
  "newline_terminated content \<longleftrightarrow> content = [] \<or> last content = LF"

section \<open>Configuration (config.py)\<close>

text \<open>\<open>KEYS_CONFIG\<close>: product type, then the key file and the prefix.\<close>

definition KEYS_CONFIG :: "(string \<times> string \<times> string) list" where
  "KEYS_CONFIG =
    [(''vallifetime'', ''keys/vallifetime_keys.txt'', ''VAL-LT-''),
     (''val1month'', ''keys/val1month_keys.txt'', ''VAL-1M-''),
     (''val1week'', ''keys/val1week_keys.txt'', ''VAL-1W-''),
     (''wooflifetime'', ''keys/wooflifetime_keys.txt'', ''WOOF-LT-''),
     (''woof1month'', ''keys/woof1month_keys.txt'', ''WOOF-1M-''),
     (''woof1week'', ''keys/woof1week_keys.txt'', ''WOOF-1W-'')]"

text \<open>\<^verbatim>\<open>KEYS_CONFIG[product_type]['file']\<close>, \<open>None\<close> when the product type is not a key.\<close>

definition key_file_of :: "string \<Rightarrow> string option" where
  "key_file_of ptype = map_option fst (map_of KEYS_CONFIG ptype)"

record product =
  p_name :: string
  p_price :: real
  p_duration :: int

text \<open>\<open>PRODUCTS\<close>; the names are written without their leading emoji.\<close>

definition PRODUCTS :: "(string \<times> product) list" where
  "PRODUCTS =
    [(''vallifetime'', \<lparr>p_name = ''Valorant LifeTime License'', p_price = 495, p_duration = 365\<rparr>),
     (''val1month'', \<lparr>p_name = ''Valorant 1 Month License'', p_price = 285, p_duration = 30\<rparr>),
     (''val1week'', \<lparr>p_name = ''Valorant 1 Week License'', p_price = 100, p_duration = 7\<rparr>),
     (''wooflifetime'', \<lparr>p_name = ''Spoofer LifeTime License'', p_price = 495, p_duration = 365\<rparr>),
     (''woof1month'', \<lparr>p_name = ''Spoofer 1 Month License'', p_price = 360, p_duration = 30\<rparr>),
     (''woof1week'', \<lparr>p_name = ''Spoofer 1 Week License'', p_price = 100, p_duration = 7\<rparr>)]"

definition ADMIN_IDS :: "int list" where
  "ADMIN_IDS = [1091441605430493185]"

section \<open>The store: key files and database tables\<close>

text \<open>
  Money (the \<open>REAL\<close> columns, Python floats) is a \<^typ>\<open>real\<close>; every function that
  computes with money takes the rounding \<open>rnd\<close> of the machine's floating point, so
  that the code's \<^verbatim>\<open>a + b\<close> is \<open>rnd (a + b)\<close>. Infinities and NaN are outside the
  model.

  \<^verbatim>\<open>CURRENT_TIMESTAMP\<close> is the UTC time in whole seconds; the columns it fills hold the
  number of seconds since 0001-01-01 00:00:00 on the UTC calendar. \<open>expires_at\<close> is
  written from \<^verbatim>\<open>datetime.now()\<close>, the local time with microseconds; the column holds
  the number of microseconds since 0001-01-01 00:00:00 (\<^verbatim>\<open>datetime.min\<close>) on the local
  calendar. Every database call reads its clock itself.

  Formatted text is kept as the pieces the f-string puts together.
\<close>

datatype piece = S string | I int | Money real

type_synonym fstring = "piece list"

record user =
  username :: string
  balance :: real
  total_spent :: real
  total_earned :: real
  is_reseller :: bool
  commission_rate :: real
  reseller_code :: "string option"
  u_created_at :: int
  last_activity :: int

record license =
  license_id :: string
  l_user_id :: int
  product_type :: string
  product_name :: "string option"
  hwid :: "string option"
  hwid_limit :: int
  l_created_at :: int
  expires_at :: int
  created_by :: int
  is_active :: bool

record transaction_row =
  t_id :: int
  t_user_id :: int
  amount :: real
  transaction_type :: string
  description :: "fstring option"
  t_created_at :: int

record admin_log =
  admin_id :: int
  action :: string
  target_user :: "int option"
  target_license :: "string option"
  details :: "fstring option"
  a_created_at :: int

text \<open>
  \<open>files\<close>: path to content, \<open>None\<close> where no file exists. \<open>users\<close>: the table with
  primary key \<open>user_id\<close>. \<open>licenses\<close>, \<open>transactions\<close>, \<open>admin_logs\<close>: rows in
  insertion order; \<open>license_id\<close> is the primary key of \<open>licenses\<close>. SQLite does not
  enforce the foreign keys (no \<^verbatim>\<open>PRAGMA foreign_keys\<close> in the source).
\<close>

record store =
  files :: "string \<rightharpoonup> string"
  users :: "int \<rightharpoonup> user"
  licenses :: "license list"
  transactions :: "transaction_row list"
  admin_logs :: "admin_log list"

section \<open>Key management (database.py)\<close>

definition get_available_key :: "store \<Rightarrow> string \<Rightarrow> string option \<times> store" where
  "get_available_key s ptype =
    (case key_file_of ptype of
       None \<Rightarrow> (None, s)
     | Some key_file \<Rightarrow>
        (case files s key_file of
           None \<Rightarrow> (None, s)
         | Some content \<Rightarrow>
            (case read_keys content of
               [] \<Rightarrow> (None, s)
             | selected_key # remaining_keys \<Rightarrow>
                 (Some selected_key,
                  s\<lparr>files := (files s)(key_file \<mapsto> write_keys remaining_keys)\<rparr>))))"

definition return_key :: "store \<Rightarrow> string \<Rightarrow> string \<Rightarrow> bool \<times> store" where
  "return_key s ptype key =
    (case key_file_of ptype of
       None \<Rightarrow> (False, s)
     | Some key_file \<Rightarrow>
        (let existing_keys = (case files s key_file of None \<Rightarrow> [] | Some content \<Rightarrow> read_keys content)
         in if key \<in> set existing_keys then (True, s)
            else (True, s\<lparr>files := (files s)(key_file \<mapsto> write_keys (key # existing_keys))\<rparr>)))"

definition get_key_count :: "store \<Rightarrow> string \<Rightarrow> int" where
  "get_key_count s ptype =
    (case key_file_of ptype of
       None \<Rightarrow> 0
     | Some key_file \<Rightarrow>
        (case files s key_file of
           None \<Rightarrow> 0
         | Some content \<Rightarrow> int (length (read_keys content))))"

text \<open>\<^verbatim>\<open>open(key_file, 'a')\<close> creates a missing file and writes at the end of an existing one.\<close>

definition add_key :: "store \<Rightarrow> string \<Rightarrow> string \<Rightarrow> bool \<times> store" where
  "add_key s ptype key =
    (case key_file_of ptype of
       None \<Rightarrow> (False, s)
     | Some key_file \<Rightarrow>
        (let existing_keys = (case files s key_file of None \<Rightarrow> [] | Some content \<Rightarrow> read_keys content)
         in if key \<in> set existing_keys then (False, s)
            else (True, s\<lparr>files := (files s)(key_file \<mapsto>
                    (case files s key_file of None \<Rightarrow> [] | Some content \<Rightarrow> content) @ key @ [LF])\<rparr>)))"

text \<open>The queue of a product: the keys its file holds, in the order of the file.\<close>

definition pool_keys :: "store \<Rightarrow> string \<Rightarrow> string list" where
  "pool_keys s ptype =
    (case key_file_of ptype of
       None \<Rightarrow> []
     | Some key_file \<Rightarrow> (case files s key_file of None \<Rightarrow> [] | Some content \<Rightarrow> read_keys content))"

text \<open>The file of a product is absent, empty, or ends with a line break.\<close>

definition pool_file_ok :: "store \<Rightarrow> string \<Rightarrow> bool" where
  "pool_file_ok s ptype =
    (case key_file_of ptype of
       None \<Rightarrow> True
     | Some key_file \<Rightarrow> (case files s key_file of None \<Rightarrow> True | Some content \<Rightarrow> newline_terminated content))"

section \<open>Users and the ledger (database.py)\<close>

text \<open>
  Every database method runs its statements in one transaction inside
  \<^verbatim>\<open>try: ... except Exception\<close>. The flag \<open>fail\<close> says that a database call of the method
  raises before its commit takes effect: the connection closes, nothing is committed,
  and the method returns its error value. Binding a Python integer that does not fit
  64 bits raises too (\<^verbatim>\<open>OverflowError\<close>), with the same outcome.
\<close>

definition sqlite_int :: "int \<Rightarrow> bool" where
  "sqlite_int n \<longleftrightarrow> - (2 ^ 63) \<le> n \<and> n < 2 ^ 63"

text \<open>\<^verbatim>\<open>UPDATE users SET ... WHERE user_id = ?\<close>\<close>

definition update_user :: "(int \<rightharpoonup> user) \<Rightarrow> int \<Rightarrow> (user \<Rightarrow> user) \<Rightarrow> (int \<rightharpoonup> user)" where
  "update_user tbl user_id f = (case tbl user_id of None \<Rightarrow> tbl | Some u \<Rightarrow> tbl(user_id \<mapsto> f u))"

definition create_user :: "bool \<Rightarrow> store \<Rightarrow> int \<Rightarrow> string \<Rightarrow> int \<Rightarrow> bool \<times> store" where
  "create_user fail s user_id uname now =
    (if fail \<or> \<not> sqlite_int user_id then (False, s)
     else (True,
       (case users s user_id of
          Some u \<Rightarrow> s
        | None \<Rightarrow> s\<lparr>users := (users s)(user_id \<mapsto>
            \<lparr>username = uname, balance = 0, total_spent = 0, total_earned = 0,
             is_reseller = False, commission_rate = 0, reseller_code = None,
             u_created_at = now, last_activity = now\<rparr>)\<rparr>)))"

definition get_user :: "bool \<Rightarrow> store \<Rightarrow> int \<Rightarrow> user option" where
  "get_user fail s user_id = (if fail \<or> \<not> sqlite_int user_id then None else users s user_id)"

definition update_user_activity :: "bool \<Rightarrow> store \<Rightarrow> int \<Rightarrow> int \<Rightarrow> bool \<times> store" where
  "update_user_activity fail s user_id now =
    (if fail \<or> \<not> sqlite_int user_id then (False, s)
     else (True, s\<lparr>users := update_user (users s) user_id (\<lambda>u. u\<lparr>last_activity := now\<rparr>)\<rparr>))"

text \<open>\<open>id INTEGER PRIMARY KEY AUTOINCREMENT\<close> of a table whose rows are never deleted.\<close>

definition next_id :: "transaction_row list \<Rightarrow> int" where
  "next_id rows = int (length rows) + 1"

text \<open>
  The three sums are SQLite's floating-point additions; \<^verbatim>\<open>abs(amount)\<close> is exact.
\<close>

definition update_balance ::
  "(real \<Rightarrow> real) \<Rightarrow> bool \<Rightarrow> store \<Rightarrow> int \<Rightarrow> real \<Rightarrow> string \<Rightarrow> fstring option \<Rightarrow> int
     \<Rightarrow> bool \<times> store" where
  "update_balance rnd fail s user_id amnt ttype descr now =
    (if fail \<or> \<not> sqlite_int user_id then (False, s)
     else
      (let users1 = update_user (users s) user_id (\<lambda>u. u\<lparr>balance := rnd (balance u + amnt)\<rparr>);
           transactions1 = transactions s @
             [\<lparr>t_id = next_id (transactions s), t_user_id = user_id, amount = amnt,
               transaction_type = ttype, description = descr, t_created_at = now\<rparr>];
           users2 = (if amnt > 0
                     then update_user users1 user_id
                            (\<lambda>u. u\<lparr>total_earned := rnd (total_earned u + amnt)\<rparr>)
                     else update_user users1 user_id
                            (\<lambda>u. u\<lparr>total_spent := rnd (total_spent u + \<bar>amnt\<bar>)\<rparr>))
       in (True, s\<lparr>users := users2, transactions := transactions1\<rparr>)))"

text \<open>
  \<^verbatim>\<open>SELECT * FROM transactions WHERE user_id = ? ORDER BY created_at DESC LIMIT ?\<close>.
  The query fixes the order of two rows only where their \<open>created_at\<close> differ, so any
  arrangement of the user's rows with \<open>created_at\<close> descending is a result the database
  may give; \<open>order_by_created_at_desc rows out\<close> says that \<open>out\<close> is one. A negative
  \<open>LIMIT\<close> is no limit.
\<close>

definition order_by_created_at_desc :: "transaction_row list \<Rightarrow> transaction_row list \<Rightarrow> bool" where
  "order_by_created_at_desc rows out \<longleftrightarrow>
     mset out = mset rows \<and> sorted_wrt (\<lambda>a b. t_created_at a \<ge> t_created_at b) out"

definition sql_limit :: "int \<Rightarrow> 'a list \<Rightarrow> 'a list" where
  "sql_limit n rows = (if n < 0 then rows else take (nat n) rows)"

definition user_transactions :: "store \<Rightarrow> int \<Rightarrow> transaction_row list" where
  "user_transactions s user_id = filter (\<lambda>t. t_user_id t = user_id) (transactions s)"

text \<open>
  \<open>get_user_transactions fail s user_id limit out\<close> is the list the method returns when
  the database delivers the ordered rows of the user as \<open>out\<close>, which is to satisfy
  \<open>order_by_created_at_desc (user_transactions s user_id) out\<close>.
\<close>

definition get_user_transactions ::
  "bool \<Rightarrow> store \<Rightarrow> int \<Rightarrow> int \<Rightarrow> transaction_row list \<Rightarrow> transaction_row list" where
  "get_user_transactions fail s user_id limit out =
    (if fail \<or> \<not> sqlite_int user_id \<or> \<not> sqlite_int limit then [] else sql_limit limit out)"

section \<open>Licenses (database.py)\<close>

text \<open>
  \<^verbatim>\<open>datetime.timedelta(days=duration_days)\<close> in microseconds; beyond 999999999 days it
  raises.
\<close>

definition timedelta_days :: "int \<Rightarrow> int option" where
  "timedelta_days d = (if \<bar>d\<bar> > 999999999 then None else Some (d * 86400 * 1000000))"

text \<open>
  \<^verbatim>\<open>datetime.max\<close>, 9999-12-31 23:59:59.999999, in microseconds since \<^verbatim>\<open>datetime.min\<close>;
  a sum outside this range raises.
\<close>

definition DATETIME_MAX :: int where
  "DATETIME_MAX = 3652059 * 86400 * 1000000 - 1"

definition datetime_add :: "int \<Rightarrow> int \<Rightarrow> int option" where
  "datetime_add t delta = (if t + delta < 0 \<or> DATETIME_MAX < t + delta then None else Some (t + delta))"

text \<open>
  \<open>local_now\<close>: \<^verbatim>\<open>datetime.datetime.now()\<close>; \<open>now\<close>: \<^verbatim>\<open>CURRENT_TIMESTAMP\<close> of the insert.
  Whatever raises after the key was taken (the date arithmetic, a binding, the insert
  on an identifier that is a license already, any database call) ends in the
  \<^verbatim>\<open>except\<close> branch, which returns the key.
\<close>

definition create_license ::
  "bool \<Rightarrow> store \<Rightarrow> int \<Rightarrow> string \<Rightarrow> int \<Rightarrow> int \<Rightarrow> int \<Rightarrow> string option \<Rightarrow> int \<Rightarrow> int
     \<Rightarrow> string option \<times> store" where
  "create_license fail s user_id ptype duration_days creator hw_limit pname local_now now =
    (case get_available_key s ptype of
       (None, s1) \<Rightarrow> (None, s1)
     | (Some lid, s1) \<Rightarrow>
        (if lid = [] then (None, s1)
         else
          (case Option.bind (timedelta_days duration_days) (datetime_add local_now) of
             None \<Rightarrow> (None, snd (return_key s1 ptype lid))
           | Some expires \<Rightarrow>
              (if fail \<or> \<not> sqlite_int user_id \<or> \<not> sqlite_int hw_limit \<or> \<not> sqlite_int creator
                    \<or> lid \<in> set (map license_id (licenses s1))
               then (None, snd (return_key s1 ptype lid))
               else (Some lid,
                 s1\<lparr>licenses := licenses s1 @
                   [\<lparr>license_id = lid, l_user_id = user_id, product_type = ptype,
                     product_name = pname, hwid = None, hwid_limit = hw_limit,
                     l_created_at = now, expires_at = expires, created_by = creator,
                     is_active = True\<rparr>]\<rparr>)))))"

definition get_license_by_id :: "bool \<Rightarrow> store \<Rightarrow> string \<Rightarrow> license option" where
  "get_license_by_id fail s lid =
    (if fail then None else find (\<lambda>l. license_id l = lid) (licenses s))"

definition delete_license :: "bool \<Rightarrow> store \<Rightarrow> string \<Rightarrow> int \<Rightarrow> bool \<times> store" where
  "delete_license fail s lid user_id =
    (if fail \<or> \<not> sqlite_int user_id then (False, s)
     else
      (case find (\<lambda>l. license_id l = lid \<and> l_user_id l = user_id) (licenses s) of
         None \<Rightarrow> (False, s)
       | Some license_data \<Rightarrow>
          (let s1 = s\<lparr>licenses := filter (\<lambda>l. \<not> (license_id l = lid \<and> l_user_id l = user_id)) (licenses s)\<rparr>
           in (True, snd (return_key s1 (product_type license_data) lid)))))"

text \<open>
  \<^verbatim>\<open>expires_at <= CURRENT_TIMESTAMP\<close> compares two texts: the local time with
  microseconds that \<open>create_license\<close> stored (\<^verbatim>\<open>YYYY-MM-DD HH:MM:SS.ffffff\<close>, without the
  fraction when it is zero) and the UTC time in whole seconds
  (\<^verbatim>\<open>YYYY-MM-DD HH:MM:SS\<close>). The first is at or before the second as text exactly when
  its second is earlier, or is the same and it has no fraction: \<open>expires_at\<close> in
  microseconds is at most \<open>now\<close> seconds.
\<close>

definition expired :: "license \<Rightarrow> int \<Rightarrow> bool" where
  "expired l now \<longleftrightarrow> expires_at l \<le> now * 1000000"


definition log_admin_action ::
  "bool \<Rightarrow> store \<Rightarrow> int \<Rightarrow> string \<Rightarrow> int option \<Rightarrow> string option \<Rightarrow> fstring option \<Rightarrow> int
     \<Rightarrow> bool \<times> store" where
  "log_admin_action fail s adm act tgt_user tgt_license dets now =
    (if fail \<or> \<not> sqlite_int adm \<or> (case tgt_user of None \<Rightarrow> False | Some t \<Rightarrow> \<not> sqlite_int t)
     then (False, s)
     else (True, s\<lparr>admin_logs := admin_logs s @
        [\<lparr>admin_id = adm, action = act, target_user = tgt_user, target_license = tgt_license,
          details = dets, a_created_at = now\<rparr>]\<rparr>))"

section \<open>The purchase command (bot.py)\<close>

text \<open>Which database calls of a command raise.\<close>

record faults =
  f_create_user :: bool
  f_update_user_activity :: bool
  f_get_user :: bool
  f_create_license :: bool
  f_update_balance :: bool
  f_log_admin_action :: bool
  f_get_license_by_id :: bool
  f_delete_license :: bool

definition no_faults :: faults where
  "no_faults = \<lparr>f_create_user = False, f_update_user_activity = False, f_get_user = False,
     f_create_license = False, f_update_balance = False, f_log_admin_action = False,
     f_get_license_by_id = False, f_delete_license = False\<rparr>"

text \<open>
  What each database call of a command reads from its clock: \<^verbatim>\<open>CURRENT_TIMESTAMP\<close> in
  seconds, and \<^verbatim>\<open>datetime.now()\<close> of \<open>create_license\<close> in microseconds.
\<close>

record clock =
  c_create_user :: int
  c_update_user_activity :: int
  c_datetime_now :: int
  c_create_license :: int
  c_update_balance :: int
  c_log_admin_action :: int

definition ensure_user_exists :: "faults \<Rightarrow> clock \<Rightarrow> store \<Rightarrow> int \<Rightarrow> string \<Rightarrow> store" where
  "ensure_user_exists fl ck s user_id uname =
    (let s1 = snd (create_user (f_create_user fl) s user_id uname (c_create_user ck))
     in snd (update_user_activity (f_update_user_activity fl) s1 user_id (c_update_user_activity ck)))"

text \<open>
  The optional \<open>user_id\<close> argument of the command: absent or empty, not an integer, or
  an integer.
\<close>

datatype user_arg = NoUserArg | BadUserArg | UserArg int

text \<open>What the confirmation view keeps of the command that opened it.\<close>

record pending_purchase =
  pp_buyer :: int
  pp_product_type :: string
  pp_product :: product
  pp_reseller_price :: real
  pp_commission :: real
  pp_target_user_id :: int
  pp_target_username :: string
  pp_user_data :: user

datatype purchase_reply =
  Unauthorized | InvalidProduct | OutOfStock | InsufficientBalance | InvalidUserId
  | Confirmation pending_purchase

text \<open>
  \<open>buyer\<close>, \<open>buyer_name\<close>: \<^verbatim>\<open>interaction.user\<close>. \<open>target_name\<close>: the display name the
  client cache gives for an integer \<open>user_id\<close> argument (or the \<^verbatim>\<open>User <id>\<close> text).
  The price is computed in floating point: \<^verbatim>\<open>original_price * (1 - commission_rate)\<close>.
\<close>

definition purchase ::
  "(real \<Rightarrow> real) \<Rightarrow> faults \<Rightarrow> clock \<Rightarrow> store \<Rightarrow> int \<Rightarrow> string \<Rightarrow> string \<Rightarrow> user_arg \<Rightarrow> string
     \<Rightarrow> purchase_reply \<times> store" where
  "purchase rnd fl ck s buyer buyer_name ptype uarg target_name =
    (let s1 = ensure_user_exists fl ck s buyer buyer_name
     in case get_user (f_get_user fl) s1 buyer of
          None \<Rightarrow> (Unauthorized, s1)
        | Some user_data \<Rightarrow>
           if \<not> is_reseller user_data then (Unauthorized, s1)
           else (case map_of PRODUCTS ptype of
              None \<Rightarrow> (InvalidProduct, s1)
            | Some prd \<Rightarrow>
               (let original_price = p_price prd;
                    reseller_price = rnd (original_price * rnd (1 - commission_rate user_data));
                    commission = rnd (original_price - reseller_price)
                in if get_key_count s1 ptype \<le> 0 then (OutOfStock, s1)
                   else if balance user_data < reseller_price then (InsufficientBalance, s1)
                   else (case uarg of
                      BadUserArg \<Rightarrow> (InvalidUserId, s1)
                    | NoUserArg \<Rightarrow>
                        (Confirmation \<lparr>pp_buyer = buyer, pp_product_type = ptype, pp_product = prd,
                           pp_reseller_price = reseller_price, pp_commission = commission,
                           pp_target_user_id = buyer, pp_target_username = buyer_name,
                           pp_user_data = user_data\<rparr>, s1)
                    | UserArg target \<Rightarrow>
                        (Confirmation \<lparr>pp_buyer = buyer, pp_product_type = ptype, pp_product = prd,
                           pp_reseller_price = reseller_price, pp_commission = commission,
                           pp_target_user_id = target, pp_target_username = target_name,
                           pp_user_data = user_data\<rparr>, s1)))))"

datatype confirm_reply =
  NotCommandUser | PurchaseFailed | PaymentFailed | PurchaseSuccessful string

text \<open>\<open>PurchaseView.purchase\<close>: the button of the confirmation, pressed by \<open>clicker\<close>.\<close>

definition purchase_confirm ::
  "(real \<Rightarrow> real) \<Rightarrow> faults \<Rightarrow> clock \<Rightarrow> store \<Rightarrow> pending_purchase \<Rightarrow> int
     \<Rightarrow> confirm_reply \<times> store" where
  "purchase_confirm rnd fl ck s pp clicker =
    (if clicker \<noteq> pp_buyer pp then (NotCommandUser, s)
     else
      (let s1 = ensure_user_exists fl ck s (pp_target_user_id pp) (pp_target_username pp)
       in case create_license (f_create_license fl) s1 (pp_target_user_id pp) (pp_product_type pp)
                 (p_duration (pp_product pp)) (pp_buyer pp) 1 (Some (p_name (pp_product pp)))
                 (c_datetime_now ck) (c_create_license ck) of
            (None, s2) \<Rightarrow> (PurchaseFailed, s2)
          | (Some lid, s2) \<Rightarrow>
             (case update_balance rnd (f_update_balance fl) s2 (pp_buyer pp) (- pp_reseller_price pp)
                     ''purchase''
                     (Some [S ''Reseller purchase: '', S (p_name (pp_product pp)),
                            S '' for user '', I (pp_target_user_id pp)]) (c_update_balance ck) of
                (False, s3) \<Rightarrow> (PaymentFailed, snd (return_key s3 (pp_product_type pp) lid))
              | (True, s3) \<Rightarrow>
                 (PurchaseSuccessful lid,
                  snd (log_admin_action (f_log_admin_action fl) s3 (pp_buyer pp) ''reseller_purchase''
                        (Some (pp_target_user_id pp)) (Some lid)
                        (Some [S ''Product: '', S (pp_product_type pp), S '', Price: '',
                               Money (pp_reseller_price pp)]) (c_log_admin_action ck))))))"

section \<open>The delete command (bot.py)\<close>

record pending_delete =
  pd_admin :: int
  pd_license_id :: string
  pd_license_data :: license
  pd_reason :: string

datatype delete_reply =
  AdminsOnly | LicenseNotFound | DeleteConfirmation pending_delete

definition deletelicense ::
  "faults \<Rightarrow> store \<Rightarrow> int \<Rightarrow> string \<Rightarrow> string \<Rightarrow> delete_reply" where
  "deletelicense fl s adm lid reason =
    (if adm \<notin> set ADMIN_IDS then AdminsOnly
     else (case get_license_by_id (f_get_license_by_id fl) s lid of
        None \<Rightarrow> LicenseNotFound
      | Some license_data \<Rightarrow>
          DeleteConfirmation \<lparr>pd_admin = adm, pd_license_id = lid,
            pd_license_data = license_data, pd_reason = reason\<rparr>))"

datatype confirm_delete_reply = NotCommandAdmin | LicenseDeleted | DeletionFailed

definition confirm_delete ::
  "faults \<Rightarrow> clock \<Rightarrow> store \<Rightarrow> pending_delete \<Rightarrow> int \<Rightarrow> confirm_delete_reply \<times> store" where
  "confirm_delete fl ck s pd clicker =
    (if clicker \<noteq> pd_admin pd then (NotCommandAdmin, s)
     else (case delete_license (f_delete_license fl) s (pd_license_id pd) (l_user_id (pd_license_data pd)) of
        (True, s1) \<Rightarrow>
          (LicenseDeleted,
           snd (log_admin_action (f_log_admin_action fl) s1 (pd_admin pd) ''license_delete''
                 (Some (l_user_id (pd_license_data pd))) (Some (pd_license_id pd))
                 (Some [S ''Reason: '', S (pd_reason pd)]) (c_log_admin_action ck)))
      | (False, s1) \<Rightarrow> (DeletionFailed, s1)))"

section \<open>Example stores\<close>

text \<open>
  The numbers of money in the examples below that use \<open>no_rounding\<close> are binary
  fractions that a double holds exactly, and so is every sum and product computed
  from them: floating point rounds nothing there.
\<close>

definition no_rounding :: "real \<Rightarrow> real" where
  "no_rounding x = x"

text \<open>Every clock of a command reads second \<open>t\<close>.\<close>

definition clock_at :: "int \<Rightarrow> clock" where
  "clock_at t = \<lparr>c_create_user = t, c_update_user_activity = t, c_datetime_now = t * 1000000,
     c_create_license = t, c_update_balance = t, c_log_admin_action = t\<rparr>"

text \<open>A store with two keys of one product and one reseller.\<close>

definition example_store :: store where
  "example_store =
    \<lparr>files = [''keys/val1week_keys.txt'' \<mapsto> ''K1'' @ [LF] @ ''K2'' @ [LF]],
     users = [1 \<mapsto> \<lparr>username = ''reseller'', balance = 1000, total_spent = 0, total_earned = 0,
               is_reseller = True, commission_rate = 1/4, reseller_code = Some ''RSLAAAAAAAA'',
               u_created_at = 0, last_activity = 0\<rparr>],
     licenses = [], transactions = [], admin_logs = []\<rparr>"

text \<open>The same key on two lines of the file.\<close>

definition duplicate_store :: store where
  "duplicate_store = example_store\<lparr>files := [''keys/val1week_keys.txt'' \<mapsto> ''K1'' @ [LF] @ ''K1'' @ [LF]]\<rparr>"

text \<open>A file whose last line has no line break.\<close>

definition unterminated_store :: store where
  "unterminated_store = example_store\<lparr>files := [''keys/val1week_keys.txt'' \<mapsto> ''K1'']\<rparr>"


text \<open>The key \<open>K1\<close> issued as a license of user 5, \<open>K2\<close> left in the queue.\<close>

definition licensed_store :: store where
  "licensed_store = example_store\<lparr>
     files := [''keys/val1week_keys.txt'' \<mapsto> ''K2'' @ [LF]],
     licenses :=
       [\<lparr>license_id = ''K1'', l_user_id = 5, product_type = ''val1week'',
         product_name = Some ''Valorant 1 Week License'', hwid = None, hwid_limit = 1,
         l_created_at = 0, expires_at = 604800000000, created_by = 1, is_active = True\<rparr>]\<rparr>"

text \<open>The confirmation an admin gets from \<open>deletelicense\<close> for that license.\<close>

definition example_pending_delete :: pending_delete where
  "example_pending_delete =
    \<lparr>pd_admin = 1091441605430493185, pd_license_id = ''K1'',
     pd_license_data = \<lparr>license_id = ''K1'', l_user_id = 5, product_type = ''val1week'',
         product_name = Some ''Valorant 1 Week License'', hwid = None, hwid_limit = 1,
         l_created_at = 0, expires_at = 604800000000, created_by = 1, is_active = True\<rparr>,
     pd_reason = ''Deleted by admin''\<rparr>"

text \<open>
  What the purchase command of reseller 1 for user 5 leaves in its confirmation view,
  at second 50 on \<open>example_store\<close>.
\<close>

definition example_pending :: pending_purchase where
  "example_pending =
    \<lparr>pp_buyer = 1, pp_product_type = ''val1week'',
     pp_product = \<lparr>p_name = ''Valorant 1 Week License'', p_price = 100, p_duration = 7\<rparr>,
     pp_reseller_price = 75, pp_commission = 25,
     pp_target_user_id = 5, pp_target_username = ''customer'',
     pp_user_data = \<lparr>username = ''reseller'', balance = 1000, total_spent = 0, total_earned = 0,
               is_reseller = True, commission_rate = 1/4, reseller_code = Some ''RSLAAAAAAAA'',
               u_created_at = 0, last_activity = 50\<rparr>\<rparr>"

text \<open>Only the database calls of \<open>update_balance\<close> raise.\<close>

definition debit_fails :: faults where
  "debit_fails = no_faults\<lparr>f_update_balance := True\<rparr>"

text \<open>The store after that command, and after the button pressed while the debit fails.\<close>

definition after_command :: store where
  "after_command = snd (purchase no_rounding no_faults (clock_at 50) example_store 1 ''reseller''
     ''val1week'' (UserArg 5) ''customer'')"

definition after_failed_payment :: store where
  "after_failed_payment =
     snd (purchase_confirm no_rounding debit_fails (clock_at 60) after_command example_pending 1)"








text \<open>
  The rows that a credit of 10 and then a debit of 3 add to the transactions of \<open>s\<close>.
\<close>

definition credit_row :: "store \<Rightarrow> int \<Rightarrow> string \<Rightarrow> fstring option \<Rightarrow> int \<Rightarrow> transaction_row" where
  "credit_row s u ty d t =
     \<lparr>t_id = next_id (transactions s), t_user_id = u, amount = 10, transaction_type = ty,
      description = d, t_created_at = t\<rparr>"

definition debit_row :: "store \<Rightarrow> int \<Rightarrow> string \<Rightarrow> fstring option \<Rightarrow> int \<Rightarrow> transaction_row" where
  "debit_row s u ty d t =
     \<lparr>t_id = next_id (transactions s) + 1, t_user_id = u, amount = - 3, transaction_type = ty,
      description = d, t_created_at = t\<rparr>"

text \<open>The two calls on \<open>example_store\<close> in the same second, and one second apart.\<close>

definition same_second_store :: store where
  "same_second_store =
     snd (update_balance no_rounding False
       (snd (update_balance no_rounding False example_store 1 10 ''admin_add'' None 100))
       1 (- 3) ''admin_remove'' None 100)"

definition next_second_store :: store where
  "next_second_store =
     snd (update_balance no_rounding False
       (snd (update_balance no_rounding False example_store 1 10 ''admin_add'' None 100))
       1 (- 3) ''admin_remove'' None 101)"

text \<open>
  Rounding to the nearest multiple of 4, ties to the even multiple: the rounding of
  doubles between \<open>2 ^ 54\<close> and \<open>2 ^ 55\<close>, where the doubles are the multiples of 4.
  Outside that range the function rounds nothing; the example applies it there to
  \<open>0 + 10\<close> and \<open>0 + 3\<close> only, which doubles hold exactly.
\<close>

definition round_near_2_54 :: "real \<Rightarrow> real" where
  "round_near_2_54 x =
     (if 2 ^ 54 \<le> x \<and> x \<le> 2 ^ 55
      then (let q = \<lfloor>x / 4\<rfloor>; r = x - 4 * of_int q
            in if r < 2 then 4 * of_int q
               else if 2 < r then 4 * of_int q + 4
               else if even q then 4 * of_int q else 4 * of_int q + 4)
      else x)"

text \<open>
  The reseller with a balance of \<open>2 ^ 54\<close>, and the store after a credit of 10 and a
  debit of 3 computed with that rounding.
\<close>

definition large_balance_store :: store where
  "large_balance_store = example_store\<lparr>users :=
     [1 \<mapsto> \<lparr>username = ''reseller'', balance = 18014398509481984, total_spent = 0, total_earned = 0,
            is_reseller = True, commission_rate = 1/4, reseller_code = Some ''RSLAAAAAAAA'',
            u_created_at = 0, last_activity = 0\<rparr>]\<rparr>"

definition after_large_calls :: store where
  "after_large_calls =
     snd (update_balance round_near_2_54 False
       (snd (update_balance round_near_2_54 False large_balance_store 1 10 ''admin_add'' None 100))
       1 (- 3) ''admin_remove'' None 101)"

section \<open>Reading and writing key files\<close>

lemma isspace_LF [simp]: "isspace LF" by (simp add: isspace_def LF_def)
lemma isspace_CR [simp]: "isspace CR" by (simp add: isspace_def CR_def)
lemma LF_neq_CR [simp]: "LF \<noteq> CR" "CR \<noteq> LF" by (simp_all add: LF_def CR_def)

lemma universal_newlines_no_CR: "CR \<notin> set (universal_newlines s)"
  by (induction s rule: universal_newlines.induct) auto

lemma universal_newlines_id: "CR \<notin> set s \<Longrightarrow> universal_newlines s = s"
  by (induction s rule: universal_newlines.induct) auto

lemma universal_newlines_set: "set (universal_newlines s) \<subseteq> insert LF (set s)"
  by (induction s rule: universal_newlines.induct) auto

lemma universal_newlines_append:
  "s = [] \<or> last s \<noteq> CR \<Longrightarrow> universal_newlines (s @ t) = universal_newlines s @ universal_newlines t"
proof (induction s rule: universal_newlines.induct)
  case 1 then show ?case by simp
next
  case (2 c) then show ?case by (cases t) auto
next
  case (3 c d cs)
  then show ?case by (cases cs) auto
qed

lemma universal_newlines_last:
  "s \<noteq> [] \<Longrightarrow> last s = LF \<Longrightarrow> universal_newlines s \<noteq> [] \<and> last (universal_newlines s) = LF"
  by (induction s rule: universal_newlines.induct) (auto split: if_splits)

lemma universal_newlines_Nil: "universal_newlines s = [] \<longleftrightarrow> s = []"
  by (induction s rule: universal_newlines.induct) auto

lemma lines_from_no_LF:
  "LF \<notin> set k \<Longrightarrow> lines_from cur (k @ LF # rest) = (cur @ k @ [LF]) # lines_from [] rest"
  by (induction k arbitrary: cur) auto

lemma lines_from_append:
  "s \<noteq> [] \<Longrightarrow> last s = LF \<Longrightarrow> lines_from cur (s @ t) = lines_from cur s @ lines_from [] t"
proof (induction s arbitrary: cur)
  case Nil then show ?case by simp
next
  case (Cons c s)
  then show ?case by (cases "s = []") auto
qed

lemma lines_from_shape:
  "LF \<notin> set cur \<Longrightarrow> l \<in> set (lines_from cur s) \<Longrightarrow> l \<noteq> [] \<and> LF \<notin> set (butlast l) \<and> set l \<subseteq> set cur \<union> set s"
proof (induction s arbitrary: cur)
  case Nil then show ?case by (auto split: if_splits dest: in_set_butlastD)
next
  case (Cons c s)
  show ?case
  proof (cases "c = LF")
    case True
    with Cons.prems have "l = cur @ [c] \<or> l \<in> set (lines_from [] s)" by auto
    then show ?thesis
    proof
      assume "l = cur @ [c]" with Cons.prems show ?thesis by auto
    next
      assume "l \<in> set (lines_from [] s)"
      from Cons.IH[OF _ this] show ?thesis by auto
    qed
  next
    case False
    with Cons.prems have "l \<in> set (lines_from (cur @ [c]) s)" by auto
    moreover from False Cons.prems have "LF \<notin> set (cur @ [c])" by auto
    ultimately have "l \<noteq> [] \<and> LF \<notin> set (butlast l) \<and> set l \<subseteq> set (cur @ [c]) \<union> set s"
      by (rule Cons.IH[rotated])
    then show ?thesis by auto
  qed
qed

lemma strip_subset: "set (strip s) \<subseteq> set s"
  by (auto simp: strip_def dest!: set_dropWhileD)

lemma strip_hd: "strip s \<noteq> [] \<Longrightarrow> \<not> isspace (hd (strip s))"
proof -
  assume a: "strip s \<noteq> []"
  let ?d = "dropWhile isspace s"
  from a have d: "?d \<noteq> []" by (cases "?d = []") (simp_all add: strip_def)
  then have h: "\<not> isspace (hd ?d)" by (rule hd_dropWhile)
  have "\<exists>ys. ?d = strip s @ ys"
  proof -
    have "rev ?d = takeWhile isspace (rev ?d) @ dropWhile isspace (rev ?d)" by simp
    then have "?d = rev (dropWhile isspace (rev ?d)) @ rev (takeWhile isspace (rev ?d))"
      by (metis rev_append rev_rev_ident)
    then show ?thesis by (auto simp: strip_def)
  qed
  then obtain ys where "?d = strip s @ ys" ..
  with a have "hd ?d = hd (strip s)" by (metis hd_append2)
  with h show ?thesis by simp
qed

lemma strip_last: "strip s \<noteq> [] \<Longrightarrow> \<not> isspace (last (strip s))"
proof -
  assume a: "strip s \<noteq> []"
  let ?r = "dropWhile isspace (rev (dropWhile isspace s))"
  from a have "?r \<noteq> []" by (auto simp: strip_def)
  then have "\<not> isspace (hd ?r)" by (rule hd_dropWhile)
  moreover have "last (strip s) = hd ?r" using \<open>?r \<noteq> []\<close> by (simp add: strip_def last_rev)
  ultimately show ?thesis by simp
qed

lemma strip_clean: "clean_key k \<Longrightarrow> strip (k @ [LF]) = k"
proof -
  assume c: "clean_key k"
  then obtain x xs where k: "k = x # xs" by (cases k) (auto simp: clean_key_def)
  from c k have "\<not> isspace x" by (simp add: clean_key_def)
  then have 1: "dropWhile isspace (k @ [LF]) = k @ [LF]" by (simp add: k)
  from c have "rev k \<noteq> []" "\<not> isspace (hd (rev k))" by (auto simp: clean_key_def hd_rev)
  then have 2: "dropWhile isspace (rev k) = rev k" by (cases "rev k") auto
  show ?thesis by (simp add: strip_def 1 2)
qed

lemma strip_no_LF:
  assumes "LF \<notin> set (butlast l)" shows "LF \<notin> set (strip l)"
proof (cases "l = []")
  case True then show ?thesis by (simp add: strip_def)
next
  case False
  then obtain b x where l: "l = b @ [x]" by (metis rev_exhaust)
  with assms have b: "LF \<notin> set b" by simp
  show ?thesis
  proof (cases "x = LF")
    case False with b l strip_subset[of l] show ?thesis by auto
  next
    case True
    let ?d = "dropWhile isspace l"
    show ?thesis
    proof (cases "?d = []")
      case True show ?thesis unfolding strip_def True by simp
    next
      case False
      then have "last ?d = last l" by (metis last_appendR takeWhile_dropWhile_id)
      then have ld: "last ?d = LF" using l True by simp
      obtain b' where d: "?d = b' @ [LF]" using False ld by (metis append_butlast_last_id)
      have "set ?d \<subseteq> set l" by (auto dest: set_dropWhileD)
      have "butlast ?d = b'" using d by simp
      have "\<exists>p. l = p @ ?d" by (metis takeWhile_dropWhile_id)
      then obtain p where "b @ [x] = p @ b' @ [LF]" using l d by metis
      then have "b = p @ b'" by (metis append_assoc butlast_snoc)
      with b have "LF \<notin> set b'" by simp
      moreover have "strip l = rev (dropWhile isspace (rev b'))"
        by (simp add: strip_def d)
      moreover have "set (rev (dropWhile isspace (rev b'))) \<subseteq> set b'"
        by (auto dest!: set_dropWhileD)
      ultimately show ?thesis by auto
    qed
  qed
qed

lemma read_keys_clean: "k \<in> set (read_keys content) \<Longrightarrow> clean_key k"
proof -
  assume "k \<in> set (read_keys content)"
  then obtain l where l: "l \<in> set (lines_from [] (universal_newlines content))" and k: "k = strip l" and ne: "strip l \<noteq> []"
    by (auto simp: read_keys_def readlines_def)
  from lines_from_shape[OF _ l] have sh: "LF \<notin> set (butlast l)" "set l \<subseteq> set (universal_newlines content)" by auto
  have "CR \<notin> set l" using sh(2) universal_newlines_no_CR by auto
  then have "CR \<notin> set k" using strip_subset[of l] k by auto
  moreover have "LF \<notin> set k" using strip_no_LF[OF sh(1)] k by simp
  ultimately show ?thesis using ne k strip_hd[OF ne] strip_last[OF ne] by (simp add: clean_key_def)
qed

lemma write_keys_Cons: "write_keys (x # ks) = x @ LF # write_keys ks"
  by (cases ks) (simp_all add: write_keys_def)

lemma write_keys_Nil: "write_keys [] = []"
  by (simp add: write_keys_def)

lemma lines_from_write_keys:
  "\<forall>k \<in> set ks. LF \<notin> set k \<Longrightarrow> lines_from [] (write_keys ks) = map (\<lambda>k. k @ [LF]) ks"
  by (induction ks) (simp_all add: write_keys_Nil write_keys_Cons lines_from_no_LF)

lemma write_keys_set: "set (write_keys ks) \<subseteq> insert LF (\<Union>(set ` set ks))"
  by (induction ks) (auto simp: write_keys_Nil write_keys_Cons)

lemma read_write_keys:
  assumes "\<forall>k \<in> set ks. clean_key k" shows "read_keys (write_keys ks) = ks"
proof -
  have "CR \<notin> set (write_keys ks)" using assms write_keys_set[of ks] by (auto simp: clean_key_def)
  then have u: "universal_newlines (write_keys ks) = write_keys ks" by (rule universal_newlines_id)
  have l: "lines_from [] (write_keys ks) = map (\<lambda>k. k @ [LF]) ks"
    using assms by (intro lines_from_write_keys) (auto simp: clean_key_def)
  have "map strip (filter (\<lambda>line. strip line \<noteq> []) (map (\<lambda>k. k @ [LF]) ks)) = ks"
    using assms by (induction ks) (auto simp: strip_clean, auto simp: clean_key_def)
  then show ?thesis by (simp add: read_keys_def readlines_def u l)
qed

lemma read_keys_append_line:
  assumes "content = [] \<or> last content = LF" and "clean_key k"
  shows "read_keys (content @ k @ [LF]) = read_keys content @ [k]"
proof -
  have kk: "universal_newlines (k @ [LF]) = k @ [LF]"
    using assms(2) by (intro universal_newlines_id) (auto simp: clean_key_def)
  have lk: "lines_from [] (k @ [LF]) = [k @ [LF]]"
    using assms(2) lines_from_no_LF[of k "[]" "[]"] by (simp add: clean_key_def)
  have sk: "strip (k @ [LF]) = k" "k \<noteq> []" using assms(2) by (auto simp: strip_clean clean_key_def)
  show ?thesis
  proof (cases "content = []")
    case True then show ?thesis by (simp add: read_keys_def readlines_def kk lk sk)
  next
    case False
    with assms(1) have la: "last content = LF" by simp
    then have "universal_newlines (content @ k @ [LF]) = universal_newlines content @ k @ [LF]"
      using universal_newlines_append[of content "k @ [LF]"] kk by simp
    moreover have "lines_from [] (universal_newlines content @ k @ [LF]) = lines_from [] (universal_newlines content) @ [k @ [LF]]"
      using lines_from_append[of "universal_newlines content" "[]" "k @ [LF]"] universal_newlines_last[OF False la] lk by simp
    ultimately show ?thesis by (simp add: read_keys_def readlines_def sk)
  qed
qed

lemma write_keys_last: "ks \<noteq> [] \<Longrightarrow> last (write_keys ks) = LF"
  by (simp add: write_keys_def)

lemma write_keys_eq_Nil: "write_keys ks = [] \<longleftrightarrow> ks = []"
  by (simp add: write_keys_def)

lemma key_file_of_inj: "key_file_of p = Some f \<Longrightarrow> key_file_of q = Some f \<Longrightarrow> p = q"
  by (auto simp: key_file_of_def KEYS_CONFIG_def split: if_splits)

section \<open>The queue of a product\<close>

lemma pool_keys_clean: "k \<in> set (pool_keys s p) \<Longrightarrow> clean_key k"
  by (auto simp: pool_keys_def read_keys_clean split: option.splits)

lemma get_key_count_pool: "get_key_count s p = int (length (pool_keys s p))"
  by (simp add: get_key_count_def pool_keys_def split: option.splits)

lemma pool_keys_write:
  "key_file_of p = Some f \<Longrightarrow> \<forall>k \<in> set ks. clean_key k \<Longrightarrow>
   pool_keys (s\<lparr>files := (files s)(f \<mapsto> write_keys ks)\<rparr>) p = ks"
  by (simp add: pool_keys_def read_write_keys)

lemma pool_keys_other:
  "key_file_of p = Some f \<Longrightarrow> q \<noteq> p \<Longrightarrow>
   pool_keys (s\<lparr>files := (files s)(f \<mapsto> c)\<rparr>) q = pool_keys s q"
  by (auto simp: pool_keys_def dest: key_file_of_inj split: option.splits)

lemma pool_keys_files_cong: "files s' = files s \<Longrightarrow> pool_keys s' p = pool_keys s p"
  by (simp add: pool_keys_def cong: option.case_cong)

lemma read_keys_Nil: "read_keys [] = []"
  by (simp add: read_keys_def readlines_def)

lemma get_available_key_empty: "pool_keys s p = [] \<Longrightarrow> get_available_key s p = (None, s)"
  by (auto simp: pool_keys_def get_available_key_def split: option.splits list.splits)

lemma get_available_key_Cons:
  "pool_keys s p = k # ks \<Longrightarrow>
   \<exists>f. key_file_of p = Some f \<and>
       get_available_key s p = (Some k, s\<lparr>files := (files s)(f \<mapsto> write_keys ks)\<rparr>)"
  by (auto simp: pool_keys_def get_available_key_def split: option.splits list.splits)

lemma return_key_member: "key \<in> set (pool_keys s p) \<Longrightarrow> return_key s p key = (True, s)"
  by (cases "key_file_of p") (auto simp: pool_keys_def return_key_def split: option.splits)

lemma return_key_new:
  "key_file_of p = Some f \<Longrightarrow> key \<notin> set (pool_keys s p) \<Longrightarrow>
   return_key s p key = (True, s\<lparr>files := (files s)(f \<mapsto> write_keys (key # pool_keys s p))\<rparr>)"
  by (auto simp: pool_keys_def return_key_def split: option.splits)

lemma add_key_member:
  "key_file_of p = Some f \<Longrightarrow> key \<in> set (pool_keys s p) \<Longrightarrow> add_key s p key = (False, s)"
  by (auto simp: pool_keys_def add_key_def split: option.splits)

lemma add_key_new:
  assumes "key_file_of p = Some f" "key \<notin> set (pool_keys s p)" "clean_key key" "pool_file_ok s p"
  shows "fst (add_key s p key) = True \<and> pool_keys (snd (add_key s p key)) p = pool_keys s p @ [key]
         \<and> pool_file_ok (snd (add_key s p key)) p"
proof (cases "files s f")
  case None
  with assms show ?thesis
    using read_keys_append_line[of "[]" key]
    by (simp add: pool_keys_def add_key_def pool_file_ok_def newline_terminated_def read_keys_Nil)
next
  case (Some content)
  with assms show ?thesis
    using read_keys_append_line[of content key]
    by (simp add: pool_keys_def add_key_def pool_file_ok_def newline_terminated_def)
qed

lemma get_available_key_pool:
  assumes "pool_keys s p = k # ks"
  shows "fst (get_available_key s p) = Some k" and "pool_keys (snd (get_available_key s p)) p = ks"
proof -
  from get_available_key_Cons[OF assms] obtain f where f: "key_file_of p = Some f"
    and g: "get_available_key s p = (Some k, s\<lparr>files := (files s)(f \<mapsto> write_keys ks)\<rparr>)" by blast
  have c: "\<forall>x \<in> set ks. clean_key x" using pool_keys_clean[of _ s p] assms by simp
  show "fst (get_available_key s p) = Some k" by (simp add: g)
  show "pool_keys (snd (get_available_key s p)) p = ks" using pool_keys_write[OF f c] by (simp add: g)
qed

lemma return_key_new_pool:
  assumes "key_file_of p = Some f" "key \<notin> set (pool_keys s p)" "clean_key key"
  shows "fst (return_key s p key) = True \<and> pool_keys (snd (return_key s p key)) p = key # pool_keys s p
         \<and> pool_file_ok (snd (return_key s p key)) p"
proof -
  have c: "\<forall>k \<in> set (key # pool_keys s p). clean_key k"
    using assms(3) pool_keys_clean[of _ s p] by auto
  show ?thesis
    using assms(1) pool_keys_write[OF assms(1) c, of s]
    by (simp add: return_key_new[OF assms(1,2)] pool_file_ok_def newline_terminated_def write_keys_def)
qed

section \<open>Taking a key\<close>

text \<open>
  C9. On a product whose queue is not empty, \<open>get_available_key\<close> returns the head of
  the queue (the key stocked first), leaves the rest of the queue in its order, lowers
  the count by one, and touches neither another product's queue nor any table. On an
  empty queue (also: unknown product, missing file) it returns \<open>None\<close> and the store
  is unchanged, so no license exists that did not exist before.
\<close>

theorem get_available_key_fifo:
  "(pool_keys s p = [] \<longrightarrow> get_available_key s p = (None, s)) \<and>
   (pool_keys s p \<noteq> [] \<longrightarrow>
      fst (get_available_key s p) = Some (hd (pool_keys s p)) \<and>
      pool_keys (snd (get_available_key s p)) p = tl (pool_keys s p) \<and>
      get_key_count (snd (get_available_key s p)) p = get_key_count s p - 1 \<and>
      (\<forall>q. q \<noteq> p \<longrightarrow> pool_keys (snd (get_available_key s p)) q = pool_keys s q) \<and>
      users (snd (get_available_key s p)) = users s \<and>
      licenses (snd (get_available_key s p)) = licenses s \<and>
      transactions (snd (get_available_key s p)) = transactions s \<and>
      admin_logs (snd (get_available_key s p)) = admin_logs s)"
proof (cases "pool_keys s p")
  case Nil
  then show ?thesis by (simp add: get_available_key_empty)
next
  case (Cons k ks)
  from get_available_key_Cons[OF Cons] obtain f where f: "key_file_of p = Some f"
    and g: "get_available_key s p = (Some k, s\<lparr>files := (files s)(f \<mapsto> write_keys ks)\<rparr>)" by blast
  have c: "\<forall>x \<in> set ks. clean_key x" using pool_keys_clean[of _ s p] Cons by simp
  have 1: "pool_keys (s\<lparr>files := (files s)(f \<mapsto> write_keys ks)\<rparr>) p = ks"
    using f c by (rule pool_keys_write)
  show ?thesis
    using Cons by (simp add: g 1 get_key_count_pool pool_keys_other[OF f])
qed

theorem get_available_key_fifo_witness:
  "pool_keys example_store ''val1week'' \<noteq> [] \<and>
   fst (get_available_key example_store ''val1week'') = Some ''K1'' \<and>
   pool_keys (snd (get_available_key example_store ''val1week'')) ''val1week'' = [''K2''] \<and>
   get_key_count (snd (get_available_key example_store ''val1week'')) ''val1week'' = 1 \<and>
   pool_keys example_store ''woof1week'' = [] \<and>
   get_available_key example_store ''woof1week'' = (None, example_store)"
proof -
  have p: "pool_keys example_store ''val1week'' = [''K1'', ''K2'']" by code_simp
  have q: "pool_keys example_store ''woof1week'' = []" by code_simp
  show ?thesis
    using get_available_key_fifo[of example_store "''val1week''"]
      get_available_key_fifo[of example_store "''woof1week''"]
    by (simp add: p q get_key_count_pool)
qed

section \<open>Returning a key\<close>

text \<open>
  C4 (as amended). When the head of a product's queue does not occur again further down
  the queue (so in every queue without duplicates), taking a key and returning that key
  at once gives the queue it was: the count is the old count and the next
  \<open>get_available_key\<close> returns the same key, because \<open>return_key\<close> puts the key in
  front. Returning a key that is in the queue already reports success and leaves the
  store unchanged.
\<close>

theorem take_then_return_key:
  "(pool_keys s p \<noteq> [] \<and> hd (pool_keys s p) \<notin> set (tl (pool_keys s p)) \<longrightarrow>
      fst (get_available_key s p) = Some (hd (pool_keys s p)) \<and>
      fst (return_key (snd (get_available_key s p)) p (hd (pool_keys s p))) = True \<and>
      pool_keys (snd (return_key (snd (get_available_key s p)) p (hd (pool_keys s p)))) p = pool_keys s p \<and>
      get_key_count (snd (return_key (snd (get_available_key s p)) p (hd (pool_keys s p)))) p
        = get_key_count s p \<and>
      fst (get_available_key (snd (return_key (snd (get_available_key s p)) p (hd (pool_keys s p)))) p)
        = Some (hd (pool_keys s p))) \<and>
   (key \<in> set (pool_keys s p) \<longrightarrow> return_key s p key = (True, s))"
proof (intro conjI impI)
  assume "key \<in> set (pool_keys s p)"
  then show "return_key s p key = (True, s)" by (rule return_key_member)
next
  assume a: "pool_keys s p \<noteq> [] \<and> hd (pool_keys s p) \<notin> set (tl (pool_keys s p))"
  then obtain k ks where pk: "pool_keys s p = k # ks" and nk: "k \<notin> set ks"
    by (cases "pool_keys s p") auto
  let ?s1 = "snd (get_available_key s p)"
  let ?s2 = "snd (return_key ?s1 p k)"
  from get_available_key_Cons[OF pk] obtain f where f: "key_file_of p = Some f" by blast
  have t: "fst (get_available_key s p) = Some k" "pool_keys ?s1 p = ks"
    using get_available_key_pool[OF pk] by simp_all
  have ck: "clean_key k" using pool_keys_clean[of k s p] pk by simp
  have r: "fst (return_key ?s1 p k) = True" "pool_keys ?s2 p = k # ks"
    using return_key_new_pool[OF f _ ck, of ?s1] nk t(2) by simp_all
  have n: "fst (get_available_key ?s2 p) = Some k"
    using get_available_key_Cons[OF r(2)] by auto
  show "fst (get_available_key s p) = Some (hd (pool_keys s p))" using t pk by simp
  show "fst (return_key (snd (get_available_key s p)) p (hd (pool_keys s p))) = True" using r pk by simp
  show "pool_keys (snd (return_key (snd (get_available_key s p)) p (hd (pool_keys s p)))) p = pool_keys s p"
    using r pk by simp
  show "get_key_count (snd (return_key (snd (get_available_key s p)) p (hd (pool_keys s p)))) p
        = get_key_count s p" using r pk by (simp add: get_key_count_pool)
  show "fst (get_available_key (snd (return_key (snd (get_available_key s p)) p (hd (pool_keys s p)))) p)
        = Some (hd (pool_keys s p))" using n pk by simp
qed

theorem take_then_return_key_witness:
  "pool_keys example_store ''val1week'' = [''K1'', ''K2''] \<and>
   fst (get_available_key example_store ''val1week'') = Some ''K1'' \<and>
   pool_keys (snd (return_key (snd (get_available_key example_store ''val1week'')) ''val1week'' ''K1''))
     ''val1week'' = [''K1'', ''K2''] \<and>
   fst (get_available_key (snd (return_key (snd (get_available_key example_store ''val1week''))
     ''val1week'' ''K1'')) ''val1week'') = Some ''K1'' \<and>
   return_key example_store ''val1week'' ''K2'' = (True, example_store)"
proof -
  have p: "pool_keys example_store ''val1week'' = [''K1'', ''K2'']" by code_simp
  show ?thesis
    using take_then_return_key[of example_store "''val1week''" "''K2''"] by (simp add: p)
qed

text \<open>
  The claim as written, for every non-empty queue, fails on a file that holds the
  same key twice: the taken key is still in the queue, so returning it is the no-op
  and the count stays one below the old count.
\<close>

theorem take_then_return_key_counterexample:
  "pool_keys duplicate_store ''val1week'' = [''K1'', ''K1''] \<and>
   get_key_count duplicate_store ''val1week'' = 2 \<and>
   fst (get_available_key duplicate_store ''val1week'') = Some ''K1'' \<and>
   fst (return_key (snd (get_available_key duplicate_store ''val1week'')) ''val1week'' ''K1'') = True \<and>
   get_key_count (snd (return_key (snd (get_available_key duplicate_store ''val1week'')) ''val1week'' ''K1''))
     ''val1week'' = 1"
  by code_simp

section \<open>Duplicate-free queues\<close>

text \<open>
  C7 (as amended). Taking a key keeps a duplicate-free queue duplicate-free. A key that
  is in the queue is rejected by \<open>add_key\<close> (result \<open>False\<close>) and accepted as a no-op by
  \<open>return_key\<close>, the store unchanged in both cases. A key that is not in the queue of
  a configured product, and that is a clean line (not empty, no white space at either
  end, no line break), is put in front by \<open>return_key\<close>, and is appended at the end by
  \<open>add_key\<close> when the file is absent, empty or ends with a line break; the queue
  stays duplicate-free.
\<close>

theorem key_pool_stays_distinct:
  "(distinct (pool_keys s p) \<longrightarrow> distinct (pool_keys (snd (get_available_key s p)) p)) \<and>
   (key \<in> set (pool_keys s p) \<longrightarrow> add_key s p key = (False, s) \<and> return_key s p key = (True, s)) \<and>
   (distinct (pool_keys s p) \<and> key \<notin> set (pool_keys s p) \<and> clean_key key \<and> key_file_of p \<noteq> None \<longrightarrow>
      fst (return_key s p key) = True \<and>
      pool_keys (snd (return_key s p key)) p = key # pool_keys s p \<and>
      distinct (pool_keys (snd (return_key s p key)) p) \<and>
      (pool_file_ok s p \<longrightarrow>
         fst (add_key s p key) = True \<and>
         pool_keys (snd (add_key s p key)) p = pool_keys s p @ [key] \<and>
         distinct (pool_keys (snd (add_key s p key)) p)))"
proof (intro conjI impI)
  assume "distinct (pool_keys s p)"
  then show "distinct (pool_keys (snd (get_available_key s p)) p)"
    by (cases "pool_keys s p") (simp_all add: get_available_key_empty get_available_key_pool)
next
  assume m: "key \<in> set (pool_keys s p)"
  then have "key_file_of p \<noteq> None" by (cases "key_file_of p") (simp_all add: pool_keys_def)
  then show "add_key s p key = (False, s)" using m by (auto intro: add_key_member)
  show "return_key s p key = (True, s)" using m by (rule return_key_member)
next
  assume a: "distinct (pool_keys s p) \<and> key \<notin> set (pool_keys s p) \<and> clean_key key \<and> key_file_of p \<noteq> None"
  then obtain f where f: "key_file_of p = Some f" by auto
  note r = return_key_new_pool[OF f, of key s]
  show "fst (return_key s p key) = True" using r a by simp
  show "pool_keys (snd (return_key s p key)) p = key # pool_keys s p" using r a by simp
  show "distinct (pool_keys (snd (return_key s p key)) p)" using r a by simp
  assume ok: "pool_file_ok s p"
  note d = add_key_new[OF f _ _ ok, of key]
  show "fst (add_key s p key) = True" using d a by simp
  show "pool_keys (snd (add_key s p key)) p = pool_keys s p @ [key]" using d a by simp
  show "distinct (pool_keys (snd (add_key s p key)) p)" using d a by simp
qed

theorem key_pool_stays_distinct_witness:
  "distinct (pool_keys example_store ''val1week'') \<and> ''K3'' \<notin> set (pool_keys example_store ''val1week'') \<and>
   clean_key ''K3'' \<and> key_file_of ''val1week'' \<noteq> None \<and> pool_file_ok example_store ''val1week'' \<and>
   distinct (pool_keys (snd (get_available_key example_store ''val1week'')) ''val1week'') \<and>
   add_key example_store ''val1week'' ''K2'' = (False, example_store) \<and>
   pool_keys (snd (return_key example_store ''val1week'' ''K3'')) ''val1week'' = [''K3'', ''K1'', ''K2''] \<and>
   pool_keys (snd (add_key example_store ''val1week'' ''K3'')) ''val1week'' = [''K1'', ''K2'', ''K3'']"
proof -
  have p: "pool_keys example_store ''val1week'' = [''K1'', ''K2'']" by code_simp
  have c: "clean_key ''K3''" by code_simp
  have f: "key_file_of ''val1week'' \<noteq> None" by code_simp
  have o: "pool_file_ok example_store ''val1week''" by code_simp
  show ?thesis
    using key_pool_stays_distinct[of example_store "''val1week''" "''K3''"]
      key_pool_stays_distinct[of example_store "''val1week''" "''K2''"]
    by (simp add: p c f o)
qed

text \<open>
  The claim as written fails outside these conditions. On a file whose last line has
  no line break, \<open>add_key\<close> writes the new key onto that line: the queue holds one
  merged key. A key with white space around it is compared as it is and stored as a
  line, which is read back without the white space: \<open>add_key\<close> and \<open>return_key\<close>
  accept it although the stripped key is in the queue, and the queue has a duplicate.
\<close>

theorem key_pool_stays_distinct_counterexample:
  "pool_keys unterminated_store ''val1week'' = [''K1''] \<and>
   fst (add_key unterminated_store ''val1week'' ''K2'') = True \<and>
   pool_keys (snd (add_key unterminated_store ''val1week'' ''K2'')) ''val1week'' = [''K1K2''] \<and>
   distinct (pool_keys example_store ''val1week'') \<and>
   fst (add_key example_store ''val1week'' '' K1'') = True \<and>
   pool_keys (snd (add_key example_store ''val1week'' '' K1'')) ''val1week'' = [''K1'', ''K2'', ''K1''] \<and>
   fst (return_key example_store ''val1week'' '' K1'') = True \<and>
   pool_keys (snd (return_key example_store ''val1week'' '' K1'')) ''val1week'' = [''K1'', ''K1'', ''K2'']"
  by code_simp

section \<open>The expiry sweep\<close>


lemma expired_mono: "expired l m \<Longrightarrow> m \<le> n \<Longrightarrow> expired l n"
  by (simp add: expired_def)









section \<open>Creating a license\<close>

lemma return_key_tables:
  "users (snd (return_key s p k)) = users s"
  "licenses (snd (return_key s p k)) = licenses s"
  "transactions (snd (return_key s p k)) = transactions s"
  "admin_logs (snd (return_key s p k)) = admin_logs s"
  by (simp_all add: return_key_def Let_def split: option.splits)

lemma get_available_key_tables:
  "users (snd (get_available_key s p)) = users s"
  "licenses (snd (get_available_key s p)) = licenses s"
  "transactions (snd (get_available_key s p)) = transactions s"
  "admin_logs (snd (get_available_key s p)) = admin_logs s"
  by (simp_all add: get_available_key_def split: option.splits list.splits)

lemma return_key_pool:
  assumes "key_file_of p \<noteq> None" "clean_key key"
  shows "pool_keys (snd (return_key s p key)) p =
         (if key \<in> set (pool_keys s p) then pool_keys s p else key # pool_keys s p)"
proof (cases "key \<in> set (pool_keys s p)")
  case True then show ?thesis by (simp add: return_key_member)
next
  case False
  from assms(1) obtain f where "key_file_of p = Some f" by auto
  from return_key_new_pool[OF this False assms(2)] False show ?thesis by simp
qed

lemma pool_keys_licenses_update: "pool_keys (s\<lparr>licenses := ls\<rparr>) p = pool_keys s p"
  by (rule pool_keys_files_cong) simp

lemma find_append_new:
  "\<forall>x \<in> set xs. \<not> P x \<Longrightarrow> P y \<Longrightarrow> find P (xs @ [y]) = Some y"
  by (induction xs) auto

text \<open>
  C10 (as amended). \<open>create_license\<close> either returns a license identifier, and then
  the identifier is the head of the product's queue, the queue has lost exactly that
  key, and a license row with that identifier (new, of the given user) is in the
  table; or it returns \<open>None\<close>, and then no license row was added and, when the queue
  was empty or its head does not occur again further down, the queue and its count are
  what they were: the key taken before the failed insert is back in front.
\<close>

theorem create_license_atomic:
  assumes "create_license fail s user_id p duration_days creator hw_limit pname local_now now = (res, s')"
  shows "case res of
      Some lid \<Rightarrow>
        pool_keys s p \<noteq> [] \<and> lid = hd (pool_keys s p) \<and>
        pool_keys s' p = tl (pool_keys s p) \<and>
        get_key_count s' p = get_key_count s p - 1 \<and>
        lid \<notin> set (map license_id (licenses s)) \<and>
        map_option license_id (get_license_by_id False s' lid) = Some lid \<and>
        map_option l_user_id (get_license_by_id False s' lid) = Some user_id
    | None \<Rightarrow>
        licenses s' = licenses s \<and>
        (pool_keys s p = [] \<or> hd (pool_keys s p) \<notin> set (tl (pool_keys s p)) \<longrightarrow>
           pool_keys s' p = pool_keys s p \<and> get_key_count s' p = get_key_count s p)"
proof (cases "pool_keys s p")
  case Nil
  with assms show ?thesis by (auto simp: create_license_def get_available_key_empty)
next
  case (Cons k ks)
  obtain s1 where g: "get_available_key s p = (Some k, s1)"
    using get_available_key_pool(1)[OF Cons] by (cases "get_available_key s p") simp
  have p1: "pool_keys s1 p = ks" using get_available_key_pool(2)[OF Cons] by (simp add: g)
  have ck: "clean_key k" using pool_keys_clean[of k s p] Cons by simp
  then have ne: "k \<noteq> []" by (simp add: clean_key_def)
  from get_available_key_Cons[OF Cons] have kf: "key_file_of p \<noteq> None" by auto
  have l1: "licenses s1 = licenses s" using get_available_key_tables(2)[of s p] by (simp add: g)
  let ?e = "Option.bind (timedelta_days duration_days) (datetime_add local_now)"
  let ?raises = "fail \<or> \<not> sqlite_int user_id \<or> \<not> sqlite_int hw_limit \<or> \<not> sqlite_int creator
      \<or> k \<in> set (map license_id (licenses s))"
  show ?thesis
  proof (cases "?e = None \<or> ?raises")
    case True
    have "create_license fail s user_id p duration_days creator hw_limit pname local_now now
               = (None, snd (return_key s1 p k))"
    proof (cases ?e)
      case None
      then show ?thesis using ne by (simp add: create_license_def g)
    next
      case (Some expires)
      with True have ?raises by simp
      then show ?thesis using ne Some by (simp add: create_license_def g l1 del: set_map)
    qed
    with assms have r: "res = None" "s' = snd (return_key s1 p k)" by simp_all
    have "pool_keys s' p = (if k \<in> set ks then ks else k # ks)"
      unfolding r using return_key_pool[OF kf ck, of s1] p1 by simp
    then show ?thesis
      using Cons by (auto simp: r(1) get_key_count_pool) (simp add: r(2) return_key_tables l1)
  next
    case False
    then obtain expires where e: "?e = Some expires" by auto
    let ?row = "\<lparr>license_id = k, l_user_id = user_id, product_type = p, product_name = pname,
               hwid = None, hwid_limit = hw_limit, l_created_at = now,
               expires_at = expires, created_by = creator, is_active = True\<rparr>"
    from False have "create_license fail s user_id p duration_days creator hw_limit pname local_now now
               = (Some k, s1\<lparr>licenses := licenses s1 @ [?row]\<rparr>)"
      using ne e by (simp add: create_license_def g l1 del: set_map)
    with assms have r: "res = Some k" "s' = s1\<lparr>licenses := licenses s1 @ [?row]\<rparr>" by simp_all
    have f: "find (\<lambda>l. license_id l = k) (licenses s @ [?row]) = Some ?row"
      using False by (intro find_append_new) auto
    show ?thesis
      using Cons False
      by (simp add: r pool_keys_licenses_update p1 get_key_count_pool get_license_by_id_def l1 f
          del: set_map)
  qed
qed

theorem create_license_atomic_witness:
  "fst (create_license False example_store 5 ''val1week'' 7 1 1 None 0 0) = Some ''K1'' \<and>
   pool_keys (snd (create_license False example_store 5 ''val1week'' 7 1 1 None 0 0)) ''val1week'' = [''K2''] \<and>
   map_option license_id (get_license_by_id False
     (snd (create_license False example_store 5 ''val1week'' 7 1 1 None 0 0)) ''K1'') = Some ''K1'' \<and>
   fst (create_license True example_store 5 ''val1week'' 7 1 1 None 0 0) = None \<and>
   get_key_count (snd (create_license True example_store 5 ''val1week'' 7 1 1 None 0 0)) ''val1week'' = 2 \<and>
   get_key_count example_store ''val1week'' = 2"
proof -
  have p: "pool_keys example_store ''val1week'' = [''K1'', ''K2'']" by code_simp
  have a: "fst (create_license False example_store 5 ''val1week'' 7 1 1 None 0 0) = Some ''K1''" by code_simp
  have b: "fst (create_license True example_store 5 ''val1week'' 7 1 1 None 0 0) = None" by code_simp
  show ?thesis
    using create_license_atomic[OF prod.collapse[symmetric], of False example_store 5 "''val1week''" 7 1 1 None 0 0]
      create_license_atomic[OF prod.collapse[symmetric], of True example_store 5 "''val1week''" 7 1 1 None 0 0]
    by (simp add: a b p get_key_count_pool)
qed

text \<open>
  For every call the claim fails: on a file that holds the same key twice, the key
  taken before the insert raises is still in the queue, so \<open>return_key\<close> is the no-op
  and the count is one below the old count.
\<close>

theorem create_license_atomic_counterexample:
  "get_key_count duplicate_store ''val1week'' = 2 \<and>
   fst (create_license True duplicate_store 5 ''val1week'' 7 1 1 None 0 0) = None \<and>
   get_key_count (snd (create_license True duplicate_store 5 ''val1week'' 7 1 1 None 0 0)) ''val1week'' = 1"
  by code_simp

section \<open>Deleting a license\<close>

lemma log_admin_action_frame:
  "files (snd (log_admin_action fail s a act tu tlic d now)) = files s"
  "users (snd (log_admin_action fail s a act tu tlic d now)) = users s"
  "licenses (snd (log_admin_action fail s a act tu tlic d now)) = licenses s"
  "transactions (snd (log_admin_action fail s a act tu tlic d now)) = transactions s"
  by (simp_all add: log_admin_action_def)

lemma find_filter_removed: "find P (filter (\<lambda>x. \<not> P x) xs) = None"
  by (induction xs) auto

lemma create_license_writes_returnable:
  assumes "create_license fail s user_id p duration_days creator hw_limit pname local_now now = (Some lid, s')"
  shows "clean_key lid \<and> key_file_of p \<noteq> None \<and> sqlite_int user_id \<and>
     (\<exists>row. find (\<lambda>l. license_id l = lid \<and> l_user_id l = user_id) (licenses s') = Some row
        \<and> product_type row = p)"
proof (cases "pool_keys s p")
  case Nil
  with assms show ?thesis by (simp add: create_license_def get_available_key_empty)
next
  case (Cons k ks)
  obtain s1 where g: "get_available_key s p = (Some k, s1)"
    using get_available_key_pool(1)[OF Cons] by (cases "get_available_key s p") simp
  have ck: "clean_key k" using pool_keys_clean[of k s p] Cons by simp
  from get_available_key_Cons[OF Cons] have kf: "key_file_of p \<noteq> None" by auto
  from assms obtain expires where
    r: "lid = k" "sqlite_int user_id" "k \<notin> set (map license_id (licenses s1))"
      "s' = s1\<lparr>licenses := licenses s1 @
         [\<lparr>license_id = k, l_user_id = user_id, product_type = p, product_name = pname,
           hwid = None, hwid_limit = hw_limit, l_created_at = now, expires_at = expires,
           created_by = creator, is_active = True\<rparr>]\<rparr>"
    by (auto simp: create_license_def g split: if_splits option.splits simp del: set_map)
  have "find (\<lambda>l. license_id l = k \<and> l_user_id l = user_id) (licenses s') =
     Some \<lparr>license_id = k, l_user_id = user_id, product_type = p, product_name = pname,
           hwid = None, hwid_limit = hw_limit, l_created_at = now, expires_at = expires,
           created_by = creator, is_active = True\<rparr>"
    unfolding r(4) using r(3) by (simp, intro find_append_new) auto
  then show ?thesis using ck kf r(1,2) by simp
qed

text \<open>
  C5 (as amended). \<open>delete_license\<close> itself returns the key: when it finds the license
  of the given user (a 64-bit user id), whose product is configured and whose
  identifier is a clean line, it reports success, the row is gone, and the identifier
  is at the head of the product's queue (the queue unchanged if it held the identifier
  already). These conditions hold of every row that \<open>create_license\<close> writes
  (\<open>create_license_writes_returnable\<close>). The admin's \<open>confirm_delete\<close> adds no key
  operation of its own: the key files after it are those \<open>delete_license\<close> left.
\<close>

theorem delete_license_returns_key:
  assumes "find (\<lambda>l. license_id l = lid \<and> l_user_id l = user_id) (licenses s) = Some row"
    and "key_file_of (product_type row) \<noteq> None"
    and "clean_key lid"
    and "sqlite_int user_id"
  shows "fst (delete_license False s lid user_id) = True \<and>
     pool_keys (snd (delete_license False s lid user_id)) (product_type row) =
       (if lid \<in> set (pool_keys s (product_type row)) then pool_keys s (product_type row)
        else lid # pool_keys s (product_type row)) \<and>
     find (\<lambda>l. license_id l = lid \<and> l_user_id l = user_id)
       (licenses (snd (delete_license False s lid user_id))) = None \<and>
     (pd_license_id pd = lid \<and> l_user_id (pd_license_data pd) = user_id \<and> \<not> f_delete_license fl \<longrightarrow>
        fst (confirm_delete fl ck s pd (pd_admin pd)) = LicenseDeleted \<and>
        files (snd (confirm_delete fl ck s pd (pd_admin pd))) = files (snd (delete_license False s lid user_id)))"
proof -
  let ?s1 = "s\<lparr>licenses := filter (\<lambda>l. \<not> (license_id l = lid \<and> l_user_id l = user_id)) (licenses s)\<rparr>"
  have d: "delete_license False s lid user_id = (True, snd (return_key ?s1 (product_type row) lid))"
    using assms(1,4) by (simp add: delete_license_def)
  have p: "pool_keys (snd (return_key ?s1 (product_type row) lid)) (product_type row) =
       (if lid \<in> set (pool_keys s (product_type row)) then pool_keys s (product_type row)
        else lid # pool_keys s (product_type row))"
    using return_key_pool[OF assms(2,3), of ?s1] by (simp add: pool_keys_licenses_update)
  have f: "find (\<lambda>l. license_id l = lid \<and> l_user_id l = user_id)
       (licenses (snd (return_key ?s1 (product_type row) lid))) = None"
    using find_filter_removed[of "\<lambda>l. license_id l = lid \<and> l_user_id l = user_id" "licenses s"]
    by (simp add: return_key_tables)
  show ?thesis
    using p f by (simp add: d confirm_delete_def log_admin_action_frame)
qed

theorem delete_license_returns_key_witness:
  "find (\<lambda>l. license_id l = ''K1'' \<and> l_user_id l = 5) (licenses licensed_store) \<noteq> None \<and>
   key_file_of ''val1week'' \<noteq> None \<and> clean_key ''K1'' \<and> sqlite_int 5 \<and>
   fst (delete_license False licensed_store ''K1'' 5) = True \<and>
   pool_keys (snd (delete_license False licensed_store ''K1'' 5)) ''val1week'' = [''K1'', ''K2''] \<and>
   fst (confirm_delete no_faults (clock_at 10) licensed_store example_pending_delete 1091441605430493185) = LicenseDeleted \<and>
   files (snd (confirm_delete no_faults (clock_at 10) licensed_store example_pending_delete 1091441605430493185)) =
     files (snd (delete_license False licensed_store ''K1'' 5))"
proof -
  have r: "find (\<lambda>l. license_id l = ''K1'' \<and> l_user_id l = 5) (licenses licensed_store) =
           Some (pd_license_data example_pending_delete)" by code_simp
  have t: "product_type (pd_license_data example_pending_delete) = ''val1week''" by code_simp
  have k: "key_file_of ''val1week'' \<noteq> None" by code_simp
  have c: "clean_key ''K1''" by code_simp
  have p: "pool_keys licensed_store ''val1week'' = [''K2'']" by code_simp
  have e: "pd_license_id example_pending_delete = ''K1''" "l_user_id (pd_license_data example_pending_delete) = 5"
    "pd_admin example_pending_delete = 1091441605430493185" "\<not> f_delete_license no_faults"
    by (simp_all add: example_pending_delete_def no_faults_def)
  have i: "sqlite_int 5" by (simp add: sqlite_int_def)
  have k': "key_file_of (product_type (pd_license_data example_pending_delete)) \<noteq> None"
    using k by (simp add: t)
  show ?thesis
    using delete_license_returns_key[OF r k' c i, where pd = example_pending_delete
        and fl = no_faults and ck = "clock_at 10"] k c i
    by (simp add: r t p e)
qed

text \<open>
  The claim as written, that the delete operation leaves the key pool unchanged,
  fails: deleting license \<open>K1\<close> puts \<open>K1\<close> in front of the queue.
\<close>

theorem delete_license_returns_key_counterexample:
  "pool_keys licensed_store ''val1week'' = [''K2''] \<and>
   fst (delete_license False licensed_store ''K1'' 5) = True \<and>
   pool_keys (snd (delete_license False licensed_store ''K1'' 5)) ''val1week'' = [''K1'', ''K2'']"
  by code_simp

section \<open>The purchase command\<close>








section \<open>A purchase whose debit fails\<close>

text \<open>
  C1, evaluated on the code. Reseller 1 buys \<open>val1week\<close> for user 5; the queue is
  \<open>K1, K2\<close>. The button creates license \<open>K1\<close>; the debit raises; the code returns the
  key and reports \<open>PaymentFailed\<close>. The count is 2 again, the balance is 1000 and no
  transaction exists, but license \<open>K1\<close> of user 5 is still in the table and active:
  the button never deletes it. \<open>K1\<close> is now both a license and the head of the queue, so
  the next purchase of the product takes \<open>K1\<close>, fails on the primary key, and puts
  \<open>K1\<close> back.
\<close>

theorem purchase_confirm_payment_failed_keeps_license:
  "fst (purchase no_rounding no_faults (clock_at 50) example_store 1 ''reseller'' ''val1week''
     (UserArg 5) ''customer'') = Confirmation example_pending \<and>
   get_key_count after_command ''val1week'' = 2 \<and>
   get_license_by_id False after_command ''K1'' = None \<and>
   fst (purchase_confirm no_rounding debit_fails (clock_at 60) after_command example_pending 1)
     = PaymentFailed \<and>
   get_key_count after_failed_payment ''val1week'' = 2 \<and>
   pool_keys after_failed_payment ''val1week'' = [''K1'', ''K2''] \<and>
   map_option balance (users after_failed_payment 1) = Some 1000 \<and>
   transactions after_failed_payment = [] \<and>
   map_option l_user_id (get_license_by_id False after_failed_payment ''K1'') = Some 5 \<and>
   map_option is_active (get_license_by_id False after_failed_payment ''K1'') = Some True \<and>
   fst (purchase_confirm no_rounding no_faults (clock_at 70) after_failed_payment example_pending 1)
     = PurchaseFailed"
proof (intro conjI)
  show "fst (purchase no_rounding no_faults (clock_at 50) example_store 1 ''reseller'' ''val1week''
     (UserArg 5) ''customer'') = Confirmation example_pending" by code_simp
  show "get_key_count after_command ''val1week'' = 2" by code_simp
  show "get_license_by_id False after_command ''K1'' = None" by code_simp
  show "fst (purchase_confirm no_rounding debit_fails (clock_at 60) after_command example_pending 1)
     = PaymentFailed" by code_simp
  show "get_key_count after_failed_payment ''val1week'' = 2" by code_simp
  show "pool_keys after_failed_payment ''val1week'' = [''K1'', ''K2'']" by code_simp
  show "map_option balance (users after_failed_payment 1) = Some 1000" by code_simp
  show "transactions after_failed_payment = []" by code_simp
  show "map_option l_user_id (get_license_by_id False after_failed_payment ''K1'') = Some 5" by code_simp
  show "map_option is_active (get_license_by_id False after_failed_payment ''K1'') = Some True"
    by code_simp
  show "fst (purchase_confirm no_rounding no_faults (clock_at 70) after_failed_payment example_pending 1)
     = PurchaseFailed" by code_simp
qed

section \<open>The ledger\<close>

lemma update_balance_step:
  assumes "users s u = Some usr" and "sqlite_int u"
  shows "fst (update_balance rnd False s u a ty d t) = True"
    and "users (snd (update_balance rnd False s u a ty d t)) =
      (users s)(u \<mapsto> usr\<lparr>balance := rnd (balance usr + a),
         total_earned := (if a > 0 then rnd (total_earned usr + a) else total_earned usr),
         total_spent := (if a > 0 then total_spent usr else rnd (total_spent usr + \<bar>a\<bar>))\<rparr>)"
    and "transactions (snd (update_balance rnd False s u a ty d t)) = transactions s @
       [\<lparr>t_id = next_id (transactions s), t_user_id = u, amount = a, transaction_type = ty,
         description = d, t_created_at = t\<rparr>]"
    and "files (snd (update_balance rnd False s u a ty d t)) = files s"
    and "licenses (snd (update_balance rnd False s u a ty d t)) = licenses s"
  using assms by (simp_all add: update_balance_def update_user_def Let_def)

lemma update_balance_rollback: "update_balance rnd True s u a ty d t = (False, s)"
  by (simp add: update_balance_def)

lemma sorted_desc_greatest_first:
  assumes "sorted_wrt (\<lambda>a b. f a \<ge> (f b :: int)) out" and "x \<in> set out"
    and "\<forall>y \<in> set (remove1 x out). f y < f x"
  shows "\<exists>rest. out = x # rest"
proof (cases out)
  case Nil with assms(2) show ?thesis by simp
next
  case (Cons y rest)
  show ?thesis
  proof (cases "y = x")
    case True with Cons show ?thesis by simp
  next
    case False
    with assms(2) Cons have "x \<in> set rest" by simp
    with assms(1) Cons have 1: "f y \<ge> f x" by simp
    have "y \<in> set (remove1 x out)" using False Cons by simp
    with assms(3) have "f y < f x" by blast
    with 1 show ?thesis by simp
  qed
qed

lemma newest_two_first:
  assumes o: "order_by_created_at_desc (old @ [r1, r2]) out"
    and old: "\<forall>r \<in> set old. t_created_at r < t_created_at r1"
    and lt: "t_created_at r1 < t_created_at r2"
  shows "\<exists>rest. out = r2 # r1 # rest \<and> order_by_created_at_desc old rest"
proof -
  from o have m: "mset out = mset (old @ [r1, r2])"
    and so: "sorted_wrt (\<lambda>a b. t_created_at a \<ge> t_created_at b) out"
    by (simp_all add: order_by_created_at_desc_def)
  have se: "set out = set (old @ [r1, r2])" using m by (rule mset_eq_setD)
  then have i2: "r2 \<in> set out" by simp
  have "mset (remove1 r2 out) = mset old + {#r1#}" using m by simp
  then have "mset (remove1 r2 out) = mset (old @ [r1])" by simp
  then have "set (remove1 r2 out) = set (old @ [r1])" by (rule mset_eq_setD)
  then have "\<forall>y \<in> set (remove1 r2 out). t_created_at y < t_created_at r2"
    using old lt by auto
  from sorted_desc_greatest_first[OF so i2 this] obtain rest1 where r1: "out = r2 # rest1" by blast
  have m1: "mset rest1 = mset (old @ [r1])" using m r1 by simp
  have s1: "sorted_wrt (\<lambda>a b. t_created_at a \<ge> t_created_at b) rest1" using so r1 by simp
  have "set rest1 = set (old @ [r1])" using m1 by (rule mset_eq_setD)
  then have i1: "r1 \<in> set rest1" by simp
  have "mset (remove1 r1 rest1) = mset old" using m1 by simp
  then have "set (remove1 r1 rest1) = set old" by (rule mset_eq_setD)
  then have "\<forall>y \<in> set (remove1 r1 rest1). t_created_at y < t_created_at r1"
    using old by simp
  from sorted_desc_greatest_first[OF s1 i1 this] obtain rest where r2: "rest1 = r1 # rest" by blast
  have "mset rest = mset old" using m1 r2 by simp
  moreover have "sorted_wrt (\<lambda>a b. t_created_at a \<ge> t_created_at b) rest" using s1 r2 by simp
  ultimately show ?thesis using r1 r2 by (simp add: order_by_created_at_desc_def)
qed

lemma user_transactions_append:
  "transactions s' = transactions s @ rows \<Longrightarrow>
   user_transactions s' u = user_transactions s u @ filter (\<lambda>t. t_user_id t = u) rows"
  by (simp add: user_transactions_def)

lemma take_two_limit:
  "limit < 0 \<or> 2 \<le> limit \<Longrightarrow> take 2 (sql_limit limit (a # b # rest)) = [a, b]"
proof (cases "limit < 0")
  case True then show ?thesis by (simp add: sql_limit_def)
next
  case False
  assume "limit < 0 \<or> 2 \<le> limit"
  with False have "2 \<le> limit" by simp
  then have "nat limit = Suc (Suc (nat limit - 2))" by simp
  then have "take (nat limit) (a # b # rest) = a # b # take (nat limit - 2) rest"
    by (metis take_Suc_Cons)
  with False show ?thesis by (simp add: sql_limit_def)
qed

lemma newest_two_returned:
  assumes "order_by_created_at_desc (old @ [r1, r2]) out"
    and "\<forall>r \<in> set old. t_created_at r < t_created_at r1"
    and "t_created_at r1 < t_created_at r2"
    and "limit < 0 \<or> 2 \<le> limit"
  shows "take 2 (sql_limit limit out) = [r2, r1]"
proof -
  from newest_two_first[OF assms(1,2,3)] obtain rest where "out = r2 # r1 # rest" by blast
  then show ?thesis using take_two_limit[OF assms(4)] by simp
qed

text \<open>
  C3 (as amended). For an existing user with a 64-bit id, a committed credit of 10
  followed by a committed debit of 3 leaves the balance at the floating-point result
  of \<open>(old + 10) + (- 3)\<close>, which is \<open>old + 7\<close> when \<open>old + 10\<close> and \<open>old + 7\<close> are
  computed without rounding; \<open>total_earned\<close> is the floating-point sum of its old
  value and 10, \<open>total_spent\<close> that of its old value and 3; no other user changes;
  exactly two transactions are added, the credit and then the debit, both of this
  user. When the timestamp of the debit is later than that of the credit, and that
  of the credit later than those of the user's earlier transactions, every result of
  \<open>get_user_transactions\<close> with a limit of at least 2 (or none) starts with the debit
  and then the credit: newest first. A call whose database calls raise changes
  nothing: balance, totals and transaction log change together or not at all.
\<close>

theorem update_balance_credit_then_debit:
  assumes "users s u = Some usr" and "sqlite_int u"
    and "update_balance rnd False s u 10 ty_c d_c t_c = (ok_c, s_c)"
    and "update_balance rnd False s_c u (- 3) ty_d d_d t_d = (ok_d, s_d)"
  shows "ok_c \<and> ok_d \<and>
    map_option balance (users s_d u) = Some (rnd (rnd (balance usr + 10) + - 3)) \<and>
    (rnd (balance usr + 10) = balance usr + 10 \<and> rnd (balance usr + 7) = balance usr + 7 \<longrightarrow>
       map_option balance (users s_d u) = Some (balance usr + 7)) \<and>
    map_option total_earned (users s_d u) = Some (rnd (total_earned usr + 10)) \<and>
    map_option total_spent (users s_d u) = Some (rnd (total_spent usr + 3)) \<and>
    (\<forall>x. x \<noteq> u \<longrightarrow> users s_d x = users s x) \<and>
    transactions s_d = transactions s @ [credit_row s u ty_c d_c t_c, debit_row s u ty_d d_d t_d] \<and>
    user_transactions s_d u = user_transactions s u @ [credit_row s u ty_c d_c t_c, debit_row s u ty_d d_d t_d] \<and>
    files s_d = files s \<and> licenses s_d = licenses s \<and>
    (\<forall>out. (\<forall>r \<in> set (user_transactions s u). t_created_at r < t_c) \<and> t_c < t_d \<and>
        (limit < 0 \<or> 2 \<le> limit) \<and> sqlite_int limit \<and>
        order_by_created_at_desc (user_transactions s_d u) out \<longrightarrow>
        take 2 (get_user_transactions False s_d u limit out)
          = [debit_row s u ty_d d_d t_d, credit_row s u ty_c d_c t_c]) \<and>
    update_balance rnd True s u 10 ty_c d_c t_c = (False, s) \<and>
    update_balance rnd True s_c u (- 3) ty_d d_d t_d = (False, s_c)"
proof -
  from assms(3) have qa: "snd (update_balance rnd False s u 10 ty_c d_c t_c) = s_c"
    and ka: "fst (update_balance rnd False s u 10 ty_c d_c t_c) = ok_c" by simp_all
  note a = update_balance_step[OF assms(1,2), of rnd 10 ty_c d_c t_c, unfolded qa ka]
  have eqa: "ok_c" using a(1) by simp
  have uq: "users s_c u = Some (usr\<lparr>balance := rnd (balance usr + 10),
      total_earned := rnd (total_earned usr + 10)\<rparr>)"
    unfolding a(2) by simp
  from assms(4) have qb: "snd (update_balance rnd False s_c u (- 3) ty_d d_d t_d) = s_d"
    and kb: "fst (update_balance rnd False s_c u (- 3) ty_d d_d t_d) = ok_d" by simp_all
  note b = update_balance_step[OF uq assms(2), of rnd "- 3" ty_d d_d t_d, unfolded qb kb]
  have eqb: "ok_d" using b(1) by simp
  have us: "users s_d u = Some (usr\<lparr>balance := rnd (rnd (balance usr + 10) + - 3),
      total_earned := rnd (total_earned usr + 10), total_spent := rnd (total_spent usr + 3)\<rparr>)"
    unfolding b(2) by simp
  have ex: "rnd (balance usr + 10) = balance usr + 10 \<and> rnd (balance usr + 7) = balance usr + 7 \<longrightarrow>
       rnd (rnd (balance usr + 10) + - 3) = balance usr + 7"
    by (auto simp: algebra_simps)
  have ot: "\<forall>x. x \<noteq> u \<longrightarrow> users s_d x = users s x"
    unfolding b(2) a(2) by simp
  have tq: "transactions s_c = transactions s @ [credit_row s u ty_c d_c t_c]"
    unfolding a(3) by (simp add: credit_row_def)
  have nq: "next_id (transactions s_c) = next_id (transactions s) + 1"
    unfolding tq by (simp add: next_id_def)
  have tr: "transactions s_d = transactions s @ [credit_row s u ty_c d_c t_c, debit_row s u ty_d d_d t_d]"
    unfolding b(3) nq unfolding tq by (simp add: debit_row_def)
  have ut: "user_transactions s_d u
      = user_transactions s u @ [credit_row s u ty_c d_c t_c, debit_row s u ty_d d_d t_d]"
    using user_transactions_append[OF tr, of u] by (simp add: credit_row_def debit_row_def)
  have fl: "files s_d = files s" "licenses s_d = licenses s"
    using a(4,5) b(4,5) by simp_all
  have c: "t_created_at (credit_row s u ty_c d_c t_c) = t_c" "t_created_at (debit_row s u ty_d d_d t_d) = t_d"
    by (simp_all add: credit_row_def debit_row_def)
  have nf: "\<forall>out. (\<forall>r \<in> set (user_transactions s u). t_created_at r < t_c) \<and> t_c < t_d \<and>
        (limit < 0 \<or> 2 \<le> limit) \<and> sqlite_int limit \<and>
        order_by_created_at_desc (user_transactions s_d u) out \<longrightarrow>
        take 2 (get_user_transactions False s_d u limit out)
          = [debit_row s u ty_d d_d t_d, credit_row s u ty_c d_c t_c]"
  proof (intro allI impI)
    fix out
    assume h: "(\<forall>r \<in> set (user_transactions s u). t_created_at r < t_c) \<and> t_c < t_d \<and>
        (limit < 0 \<or> 2 \<le> limit) \<and> sqlite_int limit \<and>
        order_by_created_at_desc (user_transactions s_d u) out"
    have "take 2 (sql_limit limit out) = [debit_row s u ty_d d_d t_d, credit_row s u ty_c d_c t_c]"
    proof (rule newest_two_returned)
      show "order_by_created_at_desc
        (user_transactions s u @ [credit_row s u ty_c d_c t_c, debit_row s u ty_d d_d t_d]) out"
        using h unfolding ut by blast
      show "\<forall>r \<in> set (user_transactions s u). t_created_at r < t_created_at (credit_row s u ty_c d_c t_c)"
        unfolding c using h by blast
      show "t_created_at (credit_row s u ty_c d_c t_c) < t_created_at (debit_row s u ty_d d_d t_d)"
        unfolding c using h by blast
      show "limit < 0 \<or> 2 \<le> limit" using h by blast
    qed
    moreover have "get_user_transactions False s_d u limit out = sql_limit limit out"
      using h assms(2) by (simp add: get_user_transactions_def)
    ultimately show "take 2 (get_user_transactions False s_d u limit out)
          = [debit_row s u ty_d d_d t_d, credit_row s u ty_c d_c t_c]" by simp
  qed
  show ?thesis
    apply (intro conjI)
    subgoal by (rule eqa)
    subgoal by (rule eqb)
    subgoal unfolding us by simp
    subgoal unfolding us using ex by simp
    subgoal unfolding us by simp
    subgoal unfolding us by simp
    subgoal by (rule ot)
    subgoal by (rule tr)
    subgoal by (rule ut)
    subgoal by (rule fl(1))
    subgoal by (rule fl(2))
    subgoal by (rule nf)
    subgoal by (rule update_balance_rollback)
    subgoal by (rule update_balance_rollback)
    done
qed

theorem update_balance_credit_then_debit_witness:
  "users example_store 1 \<noteq> None \<and> sqlite_int 1 \<and> (100 :: int) < 101 \<and>
   map_option balance (users next_second_store 1) = Some 1007 \<and>
   map_option total_earned (users next_second_store 1) = Some 10 \<and>
   map_option total_spent (users next_second_store 1) = Some 3 \<and>
   map amount (transactions next_second_store) = [10, - 3] \<and>
   order_by_created_at_desc (user_transactions next_second_store 1)
     [debit_row example_store 1 ''admin_remove'' None 101, credit_row example_store 1 ''admin_add'' None 100] \<and>
   map amount (take 2 (get_user_transactions False next_second_store 1 10
     [debit_row example_store 1 ''admin_remove'' None 101, credit_row example_store 1 ''admin_add'' None 100]))
     = [- 3, 10]"
proof -
  let ?u = "\<lparr>username = ''reseller'', balance = 1000, total_spent = 0, total_earned = 0,
               is_reseller = True, commission_rate = 1/4, reseller_code = Some ''RSLAAAAAAAA'',
               u_created_at = 0, last_activity = 0\<rparr>"
  let ?c = "credit_row example_store 1 ''admin_add'' None 100"
  let ?d = "debit_row example_store 1 ''admin_remove'' None 101"
  let ?s1 = "snd (update_balance no_rounding False example_store 1 10 ''admin_add'' None 100)"
  have a: "users example_store 1 = Some ?u" by (simp add: example_store_def)
  have i: "sqlite_int 1" "sqlite_int 10" by (simp_all add: sqlite_int_def)
  have n: "snd (update_balance no_rounding False ?s1 1 (- 3) ''admin_remove'' None 101) = next_second_store"
    by (simp add: next_second_store_def)
  have ut0: "user_transactions example_store 1 = []"
    by (simp add: user_transactions_def example_store_def)
  note t = update_balance_credit_then_debit[where rnd = no_rounding and limit = 10
      and ty_c = "''admin_add''" and d_c = None and t_c = 100
      and ty_d = "''admin_remove''" and d_d = None and t_d = 101,
      OF a i(1) prod.collapse[symmetric] prod.collapse[symmetric], unfolded n]
  from t have b: "map_option balance (users next_second_store 1) = Some 1007"
    "map_option total_earned (users next_second_store 1) = Some 10"
    "map_option total_spent (users next_second_store 1) = Some 3"
    by (simp_all add: no_rounding_def)
  from t have tr: "transactions next_second_store = transactions example_store @ [?c, ?d]" by blast
  then have am: "map amount (transactions next_second_store) = [10, - 3]"
    by (simp add: example_store_def credit_row_def debit_row_def)
  from t have ut: "user_transactions next_second_store 1 = user_transactions example_store 1 @ [?c, ?d]"
    by blast
  have ob: "order_by_created_at_desc (user_transactions next_second_store 1) [?d, ?c]"
    unfolding ut ut0 by (simp add: order_by_created_at_desc_def credit_row_def debit_row_def)
  from t have nf: "\<forall>out. (\<forall>r \<in> set (user_transactions example_store 1). t_created_at r < 100) \<and>
        (100 :: int) < 101 \<and> ((10 :: int) < 0 \<or> 2 \<le> (10 :: int)) \<and> sqlite_int 10 \<and>
        order_by_created_at_desc (user_transactions next_second_store 1) out \<longrightarrow>
        take 2 (get_user_transactions False next_second_store 1 10 out) = [?d, ?c]"
    by blast
  have "take 2 (get_user_transactions False next_second_store 1 10 [?d, ?c]) = [?d, ?c]"
    using nf[rule_format, of "[?d, ?c]"] ob i(2) by (simp add: ut0)
  then have tk: "map amount (take 2 (get_user_transactions False next_second_store 1 10 [?d, ?c])) = [- 3, 10]"
    by (simp add: credit_row_def debit_row_def)
  show ?thesis using a i(1) b am ob tk by simp
qed

text \<open>
  The claim as written fails in two ways. Two calls in the same second give both rows
  the same \<open>created_at\<close>, and the query fixes no order between them: the rows in the
  order of insertion, the credit first, are a result of the query (and the one SQLite
  gives). And the balance is a floating-point sum: from \<open>2 ^ 54\<close> the credit gives
  \<open>2 ^ 54 + 8\<close> and the debit \<open>2 ^ 54 + 4\<close>, not \<open>2 ^ 54 + 7\<close>.
\<close>

theorem update_balance_credit_then_debit_counterexample:
  "order_by_created_at_desc (user_transactions same_second_store 1) (user_transactions same_second_store 1) \<and>
   map amount (get_user_transactions False same_second_store 1 10 (user_transactions same_second_store 1))
     = [10, - 3] \<and>
   map t_created_at (get_user_transactions False same_second_store 1 10 (user_transactions same_second_store 1))
     = [100, 100] \<and>
   map_option balance (users large_balance_store 1) = Some 18014398509481984 \<and>
   map_option balance (users after_large_calls 1) = Some (18014398509481984 + 4)"
proof (intro conjI)
  have u: "map t_created_at (user_transactions same_second_store 1) = [100, 100]" by code_simp
  have "sorted_wrt (\<lambda>a b. t_created_at a \<ge> t_created_at b) (user_transactions same_second_store 1)"
    unfolding sorted_wrt_map[of "(\<ge>)" t_created_at, symmetric] u by simp
  then show "order_by_created_at_desc (user_transactions same_second_store 1)
      (user_transactions same_second_store 1)"
    by (simp add: order_by_created_at_desc_def)
  show "map amount (get_user_transactions False same_second_store 1 10 (user_transactions same_second_store 1))
     = [10, - 3]" by code_simp
  show "map t_created_at (get_user_transactions False same_second_store 1 10
      (user_transactions same_second_store 1)) = [100, 100]" by code_simp
  show "map_option balance (users large_balance_store 1) = Some 18014398509481984"
    by (simp add: large_balance_store_def)
  have r1: "round_near_2_54 (18014398509481984 + 10) = 18014398509481992"
    by (simp add: round_near_2_54_def Let_def)
  have r2: "round_near_2_54 (18014398509481992 + - 3) = 18014398509481988"
    by (simp add: round_near_2_54_def Let_def)
  have i: "sqlite_int 1" by (simp add: sqlite_int_def)
  have s: "users large_balance_store 1 = Some \<lparr>username = ''reseller'', balance = 18014398509481984,
            total_spent = 0, total_earned = 0,
            is_reseller = True, commission_rate = 1/4, reseller_code = Some ''RSLAAAAAAAA'',
            u_created_at = 0, last_activity = 0\<rparr>" by (simp add: large_balance_store_def)
  note a = update_balance_step(2)[OF s i, of round_near_2_54 10 "''admin_add''" None 100]
  let ?s1 = "snd (update_balance round_near_2_54 False large_balance_store 1 10 ''admin_add'' None 100)"
  have s1: "users ?s1 1 = Some \<lparr>username = ''reseller'', balance = 18014398509481992,
            total_spent = 0, total_earned = round_near_2_54 10,
            is_reseller = True, commission_rate = 1/4, reseller_code = Some ''RSLAAAAAAAA'',
            u_created_at = 0, last_activity = 0\<rparr>"
    unfolding a using r1 by simp
  note b = update_balance_step(2)[OF s1 i, of round_near_2_54 "- 3" "''admin_remove''" None 101]
  show "map_option balance (users after_large_calls 1) = Some (18014398509481984 + 4)"
    unfolding after_large_calls_def b using r2 by simp
qed

end
